theory Spec2Isabelle
  imports Complex_Main "HOL-Library.Char_ord" "HOL-Library.List_Lexorder"
    "HOL-Library.Product_Lexorder" "HOL-Library.Multiset"
begin

section \<open>Python values used by the command shell\<close>

subsection \<open>Strings\<close>

text \<open>
  A Python \<open>str\<close> is a sequence of code points. The model is \<^typ>\<open>string\<close>, whose
  characters are the code points below 256 (ASCII and the Latin-1 supplement); the
  operations below are Python's on that range. Two fixed log texts of \<open>cli.py\<close> hold
  characters above it; they are kept as the bytes of the source file (\<open>wave\<close> and
  \<open>check_mark\<close> further down) and no operation of this section is applied to them.
\<close>

text \<open>\<open>str.lower()\<close>: the upper-case letters are A to Z and U+00C0 to U+00DE without
  the multiplication sign U+00D7; each maps to the code point 32 above it.\<close>

definition lower_char :: "char \<Rightarrow> char" where
  "lower_char c = (let n = of_char c :: nat in
     if (65 \<le> n \<and> n \<le> 90) \<or> (192 \<le> n \<and> n \<le> 222 \<and> n \<noteq> 215)
     then char_of (n + 32) else c)"

definition lower :: "string \<Rightarrow> string" where
  "lower s = map lower_char s"

text \<open>\<open>str.isspace()\<close> on one character, and \<open>str.strip()\<close> without argument.\<close>

definition isspace :: "char \<Rightarrow> bool" where
  "isspace c = (let n = of_char c :: nat in
     (9 \<le> n \<and> n \<le> 13) \<or> (28 \<le> n \<and> n \<le> 32) \<or> n = 133 \<or> n = 160)"

definition strip :: "string \<Rightarrow> string" where
  "strip s = rev (dropWhile isspace (rev (dropWhile isspace s)))"

text \<open>\<open>sep.join(xs)\<close>.\<close>

fun join :: "string \<Rightarrow> string list \<Rightarrow> string" where
  "join sep [] = []"
| "join sep [x] = x"
| "join sep (x # y # ys) = x @ sep @ join sep (y # ys)"

text \<open>\<open>repr\<close> of a string and \<open>str\<close> of a list of strings, as an f-string renders
  \<open>{params}\<close>. The quote is the double quote when the text holds a single quote and no
  double quote, else the single quote.\<close>

definition isprintable :: "char \<Rightarrow> bool" where
  "isprintable c = (let n = of_char c :: nat in
     \<not> (n < 32 \<or> (127 \<le> n \<and> n \<le> 160) \<or> n = 173))"

definition hex_digit :: "nat \<Rightarrow> char" where
  "hex_digit d = ''0123456789abcdef'' ! d"

definition repr_char :: "char \<Rightarrow> char \<Rightarrow> string" where
  "repr_char q c = (let n = of_char c :: nat in
     if c = q \<or> c = CHR 0x5C then [CHR 0x5C, c]
     else if n = 9 then [CHR 0x5C, CHR ''t'']
     else if n = 10 then [CHR 0x5C, CHR ''n'']
     else if n = 13 then [CHR 0x5C, CHR ''r'']
     else if \<not> isprintable c then [CHR 0x5C, CHR ''x'', hex_digit (n div 16), hex_digit (n mod 16)]
     else [c])"

definition repr_str :: "string \<Rightarrow> string" where
  "repr_str s =
     (let q = (if CHR 0x27 \<in> set s \<and> CHR 0x22 \<notin> set s then CHR 0x22 else CHR 0x27)
      in [q] @ concat (map (repr_char q) s) @ [q])"

definition str_list :: "string list \<Rightarrow> string" where
  "str_list xs = ''['' @ join '', '' (map repr_str xs) @ '']''"

subsection \<open>Dictionaries\<close>

text \<open>
  A \<open>dict\<close> keeps its keys in insertion order, and assigning to a key that is present
  keeps the key's position. The model is an association list with distinct keys:
  \<open>d.get(k)\<close> is \<^const>\<open>map_of\<close>, \<open>d.keys()\<close> is \<open>map fst\<close>, \<open>d.values()\<close> is
  \<open>map snd\<close>, and \<open>d[k] = v\<close> is \<open>dict_set\<close>.
\<close>

type_synonym ('k, 'v) dict = "('k \<times> 'v) list"

fun dict_set :: "'k \<Rightarrow> 'v \<Rightarrow> ('k, 'v) dict \<Rightarrow> ('k, 'v) dict" where
  "dict_set k v [] = [(k, v)]"
| "dict_set k v ((k', v') # d) =
     (if k' = k then (k', v) # d else (k', v') # dict_set k v d)"

section \<open>The standard library's \<open>difflib\<close>, as \<open>cli.py\<close> calls it\<close>

text \<open>
  \<open>_get_command_suggestions\<close> calls \<open>difflib.get_close_matches\<close>, which scores each
  candidate \<open>x\<close> with a \<open>SequenceMatcher\<close> whose first sequence is \<open>x\<close> and whose second
  is the typed word, with no junk predicate and \<open>autojunk\<close> on. The scores are
  \<open>2.0 * matches / length\<close> of small integers; they are modelled as rationals, which
  compare as the floating-point quotients do for sequences of any length a command
  line can have.

  \<open>popular\<close> and \<open>b2j\<close> are \<open>__chain_b\<close>: the positions of each element in \<open>b\<close>, with
  the popular elements (more than \<open>n // 100 + 1\<close> occurrences when \<open>n \<ge> 200\<close>) removed.
\<close>

definition popular :: "string \<Rightarrow> char \<Rightarrow> bool" where
  "popular b elt = (length b \<ge> 200 \<and> count_list b elt > length b div 100 + 1)"

definition b2j :: "string \<Rightarrow> char \<Rightarrow> nat list" where
  "b2j b elt = (if popular b elt then [] else filter (\<lambda>j. b ! j = elt) [0..<length b])"

text \<open>
  \<open>find_longest_match(alo, ahi, blo, bhi)\<close>: \<open>inner_loop\<close> is the loop over the
  positions \<open>j\<close> of \<open>a[i]\<close> in \<open>b\<close>, \<open>outer_loop\<close> the loop over \<open>i\<close>;
  \<open>j2len_get j2len j\<close> is \<open>j2len.get(j-1, 0)\<close>. \<open>extend_left\<close> and \<open>extend_right\<close>
  are the two loops that extend the best block over equal elements; the two loops over
  junk elements never run, since the junk set is empty.
\<close>

type_synonym match = "nat \<times> nat \<times> nat"

definition j2len_get :: "(nat \<times> nat) list \<Rightarrow> nat \<Rightarrow> nat" where
  "j2len_get j2len j = (if j = 0 then 0 else case map_of j2len (j - 1) of Some k \<Rightarrow> k | None \<Rightarrow> 0)"

fun inner_loop :: "nat \<Rightarrow> nat \<Rightarrow> nat \<Rightarrow> (nat \<times> nat) list \<Rightarrow> nat list
    \<Rightarrow> (nat \<times> nat) list \<times> match \<Rightarrow> (nat \<times> nat) list \<times> match" where
  "inner_loop i blo bhi j2len [] acc = acc"
| "inner_loop i blo bhi j2len (j # js) (newj2len, (besti, bestj, bestsize)) =
     (if j < blo then inner_loop i blo bhi j2len js (newj2len, (besti, bestj, bestsize))
      else if j \<ge> bhi then (newj2len, (besti, bestj, bestsize))
      else let k = j2len_get j2len j + 1 in
        inner_loop i blo bhi j2len js
          ((j, k) # newj2len,
           if k > bestsize then (i + 1 - k, j + 1 - k, k) else (besti, bestj, bestsize)))"

fun outer_loop :: "string \<Rightarrow> string \<Rightarrow> nat \<Rightarrow> nat \<Rightarrow> nat list
    \<Rightarrow> (nat \<times> nat) list \<times> match \<Rightarrow> match" where
  "outer_loop a b blo bhi [] (j2len, best) = best"
| "outer_loop a b blo bhi (i # is) (j2len, best) =
     outer_loop a b blo bhi is (inner_loop i blo bhi j2len (b2j b (a ! i)) ([], best))"

function extend_left :: "string \<Rightarrow> string \<Rightarrow> nat \<Rightarrow> nat \<Rightarrow> match \<Rightarrow> match" where
  "extend_left a b alo blo (besti, bestj, bestsize) =
     (if besti > alo \<and> bestj > blo \<and> a ! (besti - 1) = b ! (bestj - 1)
      then extend_left a b alo blo (besti - 1, bestj - 1, bestsize + 1)
      else (besti, bestj, bestsize))"
  by pat_completeness auto
termination
  by (relation "measure (\<lambda>(a, b, alo, blo, besti, bestj, bestsize). besti)") auto

function extend_right :: "string \<Rightarrow> string \<Rightarrow> nat \<Rightarrow> nat \<Rightarrow> match \<Rightarrow> match" where
  "extend_right a b ahi bhi (besti, bestj, bestsize) =
     (if besti + bestsize < ahi \<and> bestj + bestsize < bhi
         \<and> a ! (besti + bestsize) = b ! (bestj + bestsize)
      then extend_right a b ahi bhi (besti, bestj, bestsize + 1)
      else (besti, bestj, bestsize))"
  by pat_completeness auto
termination
  by (relation "measure (\<lambda>(a, b, ahi, bhi, besti, bestj, bestsize). ahi - (besti + bestsize))") auto

definition find_longest_match :: "string \<Rightarrow> string \<Rightarrow> nat \<Rightarrow> nat \<Rightarrow> nat \<Rightarrow> nat \<Rightarrow> match" where
  "find_longest_match a b alo ahi blo bhi =
     extend_right a b ahi bhi (extend_left a b alo blo
       (outer_loop a b blo bhi [alo..<ahi] ([], (alo, blo, 0))))"


text \<open>
  The block that \<open>find_longest_match\<close> returns lies inside \<open>a[alo:ahi]\<close> and
  \<open>b[blo:bhi]\<close> and its elements are equal pairwise. \<open>block_ok\<close> says so of a block
  \<open>(i, j, k)\<close>; the recursion of \<open>get_matching_blocks\<close> terminates by it.
\<close>

definition block_ok :: "string \<Rightarrow> string \<Rightarrow> nat \<Rightarrow> nat \<Rightarrow> nat \<Rightarrow> nat \<Rightarrow> match \<Rightarrow> bool" where
  "block_ok a b alo ahi blo bhi m =
     (case m of (i, j, k) \<Rightarrow>
        alo \<le> i \<and> blo \<le> j
        \<and> ((k = 0 \<and> i = alo \<and> j = blo) \<or> (k > 0 \<and> i + k \<le> ahi \<and> j + k \<le> bhi))
        \<and> (\<forall>t < k. a ! (i + t) = b ! (j + t)))"

definition row_ok :: "string \<Rightarrow> string \<Rightarrow> nat \<Rightarrow> nat \<Rightarrow> nat \<Rightarrow> nat \<Rightarrow> (nat \<times> nat) list \<Rightarrow> bool" where
  "row_ok a b alo blo bhi i j2len =
     (\<forall>(j, v) \<in> set j2len.
        v > 0 \<and> v + alo \<le> i \<and> v + blo \<le> j + 1 \<and> j < bhi
        \<and> (\<forall>t < v. a ! (i + t - v) = b ! (Suc (j + t) - v)))"

lemma inner_loop_inv:
  assumes "alo \<le> i" "i < ahi"
    and "row_ok a b alo blo bhi i j2len"
    and "\<forall>j \<in> set js. b ! j = a ! i"
    and "row_ok a b alo blo bhi (Suc i) newj2len"
    and "block_ok a b alo ahi blo bhi best"
    and "inner_loop i blo bhi j2len js (newj2len, best) = (n', best')"
  shows "row_ok a b alo blo bhi (Suc i) n' \<and> block_ok a b alo ahi blo bhi best'"
  using assms(4-7)
proof (induction js arbitrary: newj2len best)
  case Nil
  then show ?case by simp
next
  case (Cons j js)
  obtain besti bestj bestsize where best: "best = (besti, bestj, bestsize)" by (cases best)
  from Cons.prems(1) have js: "\<forall>j \<in> set js. b ! j = a ! i" and bj: "b ! j = a ! i" by simp_all
  show ?case
  proof (cases "j < blo")
    case True
    with Cons.prems(4) best
    have "inner_loop i blo bhi j2len js (newj2len, best) = (n', best')" by simp
    from Cons.IH[OF js Cons.prems(2,3) this] show ?thesis .
  next
    case False
    show ?thesis
    proof (cases "j \<ge> bhi")
      case True
      with False Cons.prems best show ?thesis by simp
    next
      case nb: False
      define k where "k = j2len_get j2len j + 1"
      let ?best = "if k > bestsize then (i + 1 - k, j + 1 - k, k) else (besti, bestj, bestsize)"
      have step: "inner_loop i blo bhi j2len js ((j, k) # newj2len, ?best) = (n', best')"
        using Cons.prems(4) False nb unfolding k_def best
        by (simp only: inner_loop.simps Let_def if_False)
      have entry: "k > 0 \<and> k + alo \<le> Suc i \<and> k + blo \<le> j + 1 \<and> j < bhi
          \<and> (\<forall>t < k. a ! (Suc (i + t) - k) = b ! (Suc (j + t) - k))"
      proof (cases "j = 0 \<or> map_of j2len (j - 1) = None")
        case True
        then have "k = 1" by (auto simp: k_def j2len_get_def)
        with assms(1) False nb bj show ?thesis by simp
      next
        case F: False
        then obtain v where v: "map_of j2len (j - 1) = Some v" and j0: "j > 0" by auto
        then have kv: "k = v + 1" by (simp add: k_def j2len_get_def)
        from v have "(j - 1, v) \<in> set j2len" by (rule map_of_SomeD)
        with assms(3) have r: "v > 0" "v + alo \<le> i" "v + blo \<le> j - 1 + 1"
          "\<forall>t < v. a ! (i + t - v) = b ! (Suc (j - 1 + t) - v)"
          unfolding row_ok_def by auto
        have "a ! (Suc (i + t) - k) = b ! (Suc (j + t) - k)" if "t < k" for t
        proof (cases "t < v")
          case True
          with r(4) have "a ! (i + t - v) = b ! (Suc (j - 1 + t) - v)" by simp
          moreover have "Suc (i + t) - k = i + t - v" using kv by simp
          moreover have "Suc (j + t) - k = Suc (j - 1 + t) - v" using kv j0 by simp
          ultimately show ?thesis by simp
        next
          case False
          with that kv have tv: "t = v" by simp
          have "Suc (i + t) - k = i" using kv tv by simp
          moreover have "Suc (j + t) - k = j" using kv tv by simp
          ultimately show ?thesis using bj by simp
        qed
        with kv r j0 nb show ?thesis by simp
      qed
      have new: "row_ok a b alo blo bhi (Suc i) ((j, k) # newj2len)"
        using Cons.prems(2) entry unfolding row_ok_def by simp
      have inv: "block_ok a b alo ahi blo bhi ?best"
      proof (cases "k > bestsize")
        case True
        have e: "i + 1 - k + k = i + 1" "j + 1 - k + k = j + 1" using entry by simp_all
        have m: "\<forall>t < k. a ! (i + 1 - k + t) = b ! (j + 1 - k + t)"
        proof (intro allI impI)
          fix t assume "t < k"
          with entry have "a ! (Suc (i + t) - k) = b ! (Suc (j + t) - k)" by blast
          moreover have "i + 1 - k + t = Suc (i + t) - k" "j + 1 - k + t = Suc (j + t) - k"
            using entry by simp_all
          ultimately show "a ! (i + 1 - k + t) = b ! (j + 1 - k + t)" by simp
        qed
        have "alo \<le> i + 1 - k" "blo \<le> j + 1 - k" "i + 1 - k + k \<le> ahi" "j + 1 - k + k \<le> bhi"
          using entry assms(2) nb by auto
        with True entry m show ?thesis unfolding block_ok_def by (simp del: One_nat_def)
      next
        case False
        with Cons.prems(3) best show ?thesis by simp
      qed
      from Cons.IH[OF js new inv step] show ?thesis .
    qed
  qed
qed

lemma b2j_eq: "\<forall>j \<in> set (b2j b elt). b ! j = elt"
  by (simp add: b2j_def)

lemma outer_loop_inv:
  assumes "row_ok a b alo blo bhi i0 j2len"
    and "alo \<le> i0"
    and "block_ok a b alo ahi blo bhi best"
    and "outer_loop a b blo bhi [i0..<ahi] (j2len, best) = best'"
  shows "block_ok a b alo ahi blo bhi best'"
  using assms
proof (induction "ahi - i0" arbitrary: i0 j2len best)
  case 0
  then have "[i0..<ahi] = []" by simp
  with "0.prems" show ?case by simp
next
  case (Suc n)
  then have lt: "i0 < ahi" by simp
  then have upt: "[i0..<ahi] = i0 # [Suc i0..<ahi]" by (simp add: upt_rec)
  obtain n' best1 where
    inner: "inner_loop i0 blo bhi j2len (b2j b (a ! i0)) ([], best) = (n', best1)"
    by (cases "inner_loop i0 blo bhi j2len (b2j b (a ! i0)) ([], best)")
  have empty: "row_ok a b alo blo bhi (Suc i0) []" by (simp add: row_ok_def)
  from inner_loop_inv[OF Suc.prems(2) lt Suc.prems(1) b2j_eq empty Suc.prems(3) inner]
  have inv: "row_ok a b alo blo bhi (Suc i0) n'" "block_ok a b alo ahi blo bhi best1" by simp_all
  have rest: "outer_loop a b blo bhi [Suc i0..<ahi] (n', best1) = best'"
    using Suc.prems(4) upt inner by simp
  have n: "n = ahi - Suc i0" using Suc.hyps(2) by simp
  have le: "alo \<le> Suc i0" using Suc.prems(2) by simp
  show ?case by (rule Suc.hyps(1)[OF n inv(1) le inv(2) rest])
qed

declare extend_left.simps [simp del] extend_right.simps [simp del]

lemma block_ok_grow:
  assumes "alo \<le> i'" "blo \<le> j'" "i' + Suc k \<le> ahi" "j' + Suc k \<le> bhi"
    and "\<And>t. t < Suc k \<Longrightarrow> a ! (i' + t) = b ! (j' + t)"
  shows "block_ok a b alo ahi blo bhi (i', j', Suc k)"
  unfolding block_ok_def using assms by simp

lemma block_okD:
  assumes "block_ok a b alo ahi blo bhi (i, j, k)"
  shows "alo \<le> i" "blo \<le> j" "k > 0 \<Longrightarrow> i + k \<le> ahi \<and> j + k \<le> bhi"
    "k = 0 \<Longrightarrow> i = alo \<and> j = blo" "t < k \<Longrightarrow> a ! (i + t) = b ! (j + t)"
  using assms unfolding block_ok_def by auto

lemma extend_left_inv:
  assumes "block_ok a b alo ahi blo bhi best"
  shows "block_ok a b alo ahi blo bhi (extend_left a b alo blo best)"
  using assms
proof (induction a b alo blo best rule: extend_left.induct)
  case (1 a b alo blo besti bestj bestsize)
  note ok = block_okD[OF "1.prems"]
  show ?case
  proof (cases "besti > alo \<and> bestj > blo \<and> a ! (besti - 1) = b ! (bestj - 1)")
    case True
    then have g: "besti > alo" "bestj > blo" "a ! (besti - 1) = b ! (bestj - 1)" by simp_all
    from g(1) ok(4) have pos: "bestsize > 0" by (cases bestsize) simp_all
    from ok(3)[OF pos] have hi: "besti + bestsize \<le> ahi" "bestj + bestsize \<le> bhi" by simp_all
    have m: "a ! (besti - 1 + t) = b ! (bestj - 1 + t)" if "t < Suc bestsize" for t
    proof (cases t)
      case 0
      with g(3) show ?thesis by simp
    next
      case (Suc u)
      with that have "u < bestsize" by simp
      from ok(5)[OF this] have "a ! (besti + u) = b ! (bestj + u)" .
      moreover have "besti - 1 + t = besti + u" "bestj - 1 + t = bestj + u"
        using Suc g(1,2) by simp_all
      ultimately show ?thesis by simp
    qed
    have "block_ok a b alo ahi blo bhi (besti - 1, bestj - 1, Suc bestsize)"
    proof (rule block_ok_grow)
      show "alo \<le> besti - 1" using g(1) by simp
      show "blo \<le> bestj - 1" using g(2) by simp
      show "besti - 1 + Suc bestsize \<le> ahi" using hi(1) g(1) by simp
      show "bestj - 1 + Suc bestsize \<le> bhi" using hi(2) g(2) by simp
      show "\<And>t. t < Suc bestsize \<Longrightarrow> a ! (besti - 1 + t) = b ! (bestj - 1 + t)" by (rule m)
    qed
    then have "block_ok a b alo ahi blo bhi (besti - 1, bestj - 1, bestsize + 1)" by simp
    from "1.IH"[OF True this] have
      "block_ok a b alo ahi blo bhi (extend_left a b alo blo (besti - 1, bestj - 1, bestsize + 1))" .
    moreover have "extend_left a b alo blo (besti, bestj, bestsize)
        = extend_left a b alo blo (besti - 1, bestj - 1, bestsize + 1)"
      using True by (subst extend_left.simps) simp
    ultimately show ?thesis by simp
  next
    case False
    then have "extend_left a b alo blo (besti, bestj, bestsize) = (besti, bestj, bestsize)"
      by (subst extend_left.simps) (simp only: if_False)
    with "1.prems" show ?thesis by simp
  qed
qed

lemma extend_right_inv:
  assumes "block_ok a b alo ahi blo bhi best"
  shows "block_ok a b alo ahi blo bhi (extend_right a b ahi bhi best)"
  using assms
proof (induction a b ahi bhi best rule: extend_right.induct)
  case (1 a b ahi bhi besti bestj bestsize)
  note ok = block_okD[OF "1.prems"]
  show ?case
  proof (cases "besti + bestsize < ahi \<and> bestj + bestsize < bhi
         \<and> a ! (besti + bestsize) = b ! (bestj + bestsize)")
    case True
    then have g: "besti + bestsize < ahi" "bestj + bestsize < bhi"
      "a ! (besti + bestsize) = b ! (bestj + bestsize)" by simp_all
    have m: "a ! (besti + t) = b ! (bestj + t)" if "t < Suc bestsize" for t
    proof (cases "t < bestsize")
      case True
      from ok(5)[OF this] show ?thesis .
    next
      case False
      with that have "t = bestsize" by simp
      with g(3) show ?thesis by simp
    qed
    have "block_ok a b alo ahi blo bhi (besti, bestj, Suc bestsize)"
    proof (rule block_ok_grow)
      show "alo \<le> besti" by (rule ok(1))
      show "blo \<le> bestj" by (rule ok(2))
      show "besti + Suc bestsize \<le> ahi" using g(1) by simp
      show "bestj + Suc bestsize \<le> bhi" using g(2) by simp
      show "\<And>t. t < Suc bestsize \<Longrightarrow> a ! (besti + t) = b ! (bestj + t)" by (rule m)
    qed
    then have "block_ok a b alo ahi blo bhi (besti, bestj, bestsize + 1)" by simp
    from "1.IH"[OF True this] have
      "block_ok a b alo ahi blo bhi (extend_right a b ahi bhi (besti, bestj, bestsize + 1))" .
    moreover have "extend_right a b ahi bhi (besti, bestj, bestsize)
        = extend_right a b ahi bhi (besti, bestj, bestsize + 1)"
      using True by (subst extend_right.simps) simp
    ultimately show ?thesis by simp
  next
    case False
    then have "extend_right a b ahi bhi (besti, bestj, bestsize) = (besti, bestj, bestsize)"
      by (subst extend_right.simps) (simp only: if_False)
    with "1.prems" show ?thesis by simp
  qed
qed

lemma find_longest_match_ok:
  "block_ok a b alo ahi blo bhi (find_longest_match a b alo ahi blo bhi)"
proof -
  have "block_ok a b alo ahi blo bhi (alo, blo, 0)" by (simp add: block_ok_def)
  moreover have "row_ok a b alo blo bhi alo []" by (simp add: row_ok_def)
  ultimately have "block_ok a b alo ahi blo bhi
      (outer_loop a b blo bhi [alo..<ahi] ([], (alo, blo, 0)))"
    using outer_loop_inv[of a b alo blo bhi alo "[]" ahi "(alo, blo, 0)"] by simp
  then show ?thesis
    unfolding find_longest_match_def by (intro extend_right_inv extend_left_inv)
qed

lemma find_longest_match_bounds':
  assumes "(i, jk) = find_longest_match a b alo ahi blo bhi" "(j, k) = jk" "0 < k"
  shows "alo \<le> i \<and> i + k \<le> ahi"
proof -
  from assms(1,2) have "find_longest_match a b alo ahi blo bhi = (i, j, k)" by simp
  with find_longest_match_ok[of a b alo ahi blo bhi]
  have "block_ok a b alo ahi blo bhi (i, j, k)" by simp
  from block_okD(1)[OF this] block_okD(3)[OF this assms(3)] show ?thesis by simp
qed

text \<open>
  \<open>get_matching_blocks\<close> without its final sentinel: the longest block, then the
  blocks to its left and to its right. (The library collects them with a work list,
  sorts them and joins adjacent ones; \<open>ratio\<close> only sums their sizes.)
\<close>

function matching_blocks :: "string \<Rightarrow> string \<Rightarrow> nat \<Rightarrow> nat \<Rightarrow> nat \<Rightarrow> nat \<Rightarrow> match list" where
  "matching_blocks a b alo ahi blo bhi =
     (case find_longest_match a b alo ahi blo bhi of (i, j, k) \<Rightarrow>
        if k \<noteq> 0 then
          (if alo < i \<and> blo < j then matching_blocks a b alo i blo j else [])
          @ [(i, j, k)]
          @ (if i + k < ahi \<and> j + k < bhi then matching_blocks a b (i + k) ahi (j + k) bhi else [])
        else [])"
  by pat_completeness auto
termination
proof (relation "measure (\<lambda>(a, b, alo, ahi, blo, bhi). ahi - alo)", goal_cases)
  case 1
  show ?case by simp
next
  case (2 a b alo ahi blo bhi i jk j k)
  from find_longest_match_bounds'[OF 2(1) 2(2)] 2(3,4) show ?case by auto
next
  case (3 a b alo ahi blo bhi i jk j k)
  from find_longest_match_bounds'[OF 3(1) 3(2)] 3(3,4) show ?case by auto
qed

declare matching_blocks.simps [simp del]

text \<open>\<open>_calculate_ratio\<close>, \<open>ratio\<close>, \<open>quick_ratio\<close> and \<open>real_quick_ratio\<close>.\<close>

definition calculate_ratio :: "nat \<Rightarrow> nat \<Rightarrow> rat" where
  "calculate_ratio matches len = (if len \<noteq> 0 then 2 * of_nat matches / of_nat len else 1)"

definition ratio :: "string \<Rightarrow> string \<Rightarrow> rat" where
  "ratio a b = calculate_ratio
     (sum_list (map (\<lambda>(i, j, k). k) (matching_blocks a b 0 (length a) 0 (length b))))
     (length a + length b)"

fun quick_matches :: "string \<Rightarrow> (char \<times> int) list \<Rightarrow> string \<Rightarrow> nat" where
  "quick_matches b avail [] = 0"
| "quick_matches b avail (elt # a) =
     (let numb = (case map_of avail elt of Some n \<Rightarrow> n | None \<Rightarrow> int (count_list b elt))
      in (if numb > 0 then 1 else 0) + quick_matches b ((elt, numb - 1) # avail) a)"

definition quick_ratio :: "string \<Rightarrow> string \<Rightarrow> rat" where
  "quick_ratio a b = calculate_ratio (quick_matches b [] a) (length a + length b)"

definition real_quick_ratio :: "string \<Rightarrow> string \<Rightarrow> rat" where
  "real_quick_ratio a b = calculate_ratio (min (length a) (length b)) (length a + length b)"

text \<open>
  \<open>heapq.nlargest(n, result)\<close> is \<open>sorted(result, reverse=True)[:n]\<close>; the pairs
  \<open>(score, x)\<close> compare by score, then by the strings' code points.
  \<open>get_close_matches\<close> is called with \<open>n = 3\<close> and \<open>cutoff = 0.6\<close> only, so its two
  argument checks never raise.
\<close>

definition nlargest :: "nat \<Rightarrow> (rat \<times> string) list \<Rightarrow> (rat \<times> string) list" where
  "nlargest n xs = take n (rev (sort xs))"

definition get_close_matches :: "string \<Rightarrow> string list \<Rightarrow> nat \<Rightarrow> rat \<Rightarrow> string list" where
  "get_close_matches word possibilities n cutoff =
     map snd (nlargest n
       (map (\<lambda>x. (ratio x word, x))
         (filter (\<lambda>x. real_quick_ratio x word \<ge> cutoff \<and> quick_ratio x word \<ge> cutoff
                     \<and> ratio x word \<ge> cutoff) possibilities)))"

section \<open>The standard library's \<open>shlex.split\<close>\<close>

text \<open>
  \<open>shlex.split(s)\<close> reads \<open>s\<close> with a POSIX-mode \<open>shlex\<close> that splits at whitespace
  only and knows no comment character. Its \<open>read_token\<close> is a state machine over the
  characters: between tokens (\<open>In_space\<close>), inside a word (\<open>In_word\<close>), inside quotes
  (\<open>In_quote q\<close>), and after a backslash (\<open>In_escape\<close>, which remembers whether the
  backslash stood in a word or inside double quotes). \<open>token\<close> is the token read so
  far and \<open>quoted\<close> tells whether it had a quoted part, so that \<open>''\<close> is a token.
  \<open>Inl msg\<close> is the \<open>ValueError\<close> of an open quotation or a trailing backslash.
\<close>

datatype shlex_state = In_space | In_word | In_quote char | In_escape "char option"

definition shlex_whitespace :: "char \<Rightarrow> bool" where
  "shlex_whitespace c = (c = CHR '' '' \<or> c = CHR 0x09 \<or> c = CHR 0x0D \<or> c = CHR 0x0A)"

definition shlex_quote :: "char \<Rightarrow> bool" where
  "shlex_quote c = (c = CHR 0x27 \<or> c = CHR 0x22)"

fun read_tokens :: "shlex_state \<Rightarrow> string \<Rightarrow> bool \<Rightarrow> string \<Rightarrow> string + string list" where
  "read_tokens In_space token quoted [] = Inr []"
| "read_tokens In_space token quoted (c # cs) =
     (if shlex_whitespace c then read_tokens In_space [] False cs
      else if c = CHR 0x5C then read_tokens (In_escape None) [] False cs
      else if shlex_quote c then read_tokens (In_quote c) [] False cs
      else read_tokens In_word [c] False cs)"
| "read_tokens (In_quote q) token quoted [] = Inl ''No closing quotation''"
| "read_tokens (In_quote q) token quoted (c # cs) =
     (if c = q then read_tokens In_word token True cs
      else if c = CHR 0x5C \<and> q = CHR 0x22 then read_tokens (In_escape (Some q)) token True cs
      else read_tokens (In_quote q) (token @ [c]) True cs)"
| "read_tokens (In_escape es) token quoted [] = Inl ''No escaped character''"
| "read_tokens (In_escape es) token quoted (c # cs) =
     (case es of
        None \<Rightarrow> read_tokens In_word (token @ [c]) quoted cs
      | Some q \<Rightarrow>
          read_tokens (In_quote q)
            ((if c \<noteq> CHR 0x5C \<and> c \<noteq> q then token @ [CHR 0x5C] else token) @ [c]) quoted cs)"
| "read_tokens In_word token quoted [] =
     Inr (if token \<noteq> [] \<or> quoted then [token] else [])"
| "read_tokens In_word token quoted (c # cs) =
     (if shlex_whitespace c then
        (if token \<noteq> [] \<or> quoted then
           (case read_tokens In_space [] False cs of
              Inl msg \<Rightarrow> Inl msg
            | Inr tokens \<Rightarrow> Inr (token # tokens))
         else read_tokens In_space [] False cs)
      else if shlex_quote c then read_tokens (In_quote c) token quoted cs
      else if c = CHR 0x5C then read_tokens (In_escape None) token quoted cs
      else read_tokens In_word (token @ [c]) quoted cs)"

definition shlex_split :: "string \<Rightarrow> string + string list" where
  "shlex_split s = read_tokens In_space [] False s"

section \<open>Output, input and the environment\<close>

text \<open>
  Everything the program shows is recorded in order: a record of \<open>logger\<close> with its
  level, a line of \<open>print\<close>, a command given to \<open>os.system\<close>, and the text of a prompt
  shown by \<open>session.prompt\<close>.
\<close>

datatype level = INFO | WARNING | ERROR

datatype event = Log level string | Print string | System string | Prompt string

text \<open>What \<open>session.prompt\<close> gives back: a line, or \<open>KeyboardInterrupt\<close>, or \<open>EOFError\<close>.\<close>

datatype input_event = Line string | Interrupt | EOF

text \<open>
  The exceptions that travel through \<open>cli.py\<close>. \<open>Exception msg\<close> stands for every
  instance of a subclass of \<open>Exception\<close>, with \<open>msg\<close> its \<open>str\<close>; \<open>KeyboardInterrupt\<close> and
  \<open>SystemExit\<close> are not subclasses of \<open>Exception\<close>, so \<open>except Exception\<close> lets them pass.
  A call ends in one of three ways: it returns, it raises, or it waits at a prompt for
  input that the scripted input does not hold (\<open>Blocked\<close>).
\<close>

datatype exn = Exception string | KeyboardInterrupt | SystemExit int

datatype outcome = Returned | Raised exn | Blocked

text \<open>
  The surroundings of the program. \<open>html_raises text\<close> tells whether \<open>HTML(text)\<close> of
  \<open>prompt_toolkit\<close> raises, and with which text: \<open>HTML\<close> parses its argument as XML
  and raises an \<open>ExpatError\<close>, an \<open>Exception\<close>, when it is not well-formed, as with a
  stray \<open><\<close> or \<open>&\<close>. \<open>init_raises nm\<close> tells whether the call \<open>ZerePyAgent(nm)\<close> raises
  an \<open>Exception\<close>, and with which text; \<open>loop_interrupted\<close> tells whether Ctrl+C arrives
  while \<open>agent.loop()\<close> runs; \<open>agent_files\<close> are the stems of \<open>agents/*.json\<close> in the
  order \<open>glob\<close> yields them; \<open>os_name\<close> is \<open>os.name\<close>.
\<close>

record env =
  html_raises :: "string \<Rightarrow> string option"
  init_raises :: "string \<Rightarrow> string option"
  loop_interrupted :: bool
  agent_files :: "string list"
  os_name :: string

section \<open>\<open>agent.py\<close>\<close>

text \<open>
  \<open>ZerePyAgent\<close> has the fields \<open>name\<close>, \<open>is_llm_set\<close> and \<open>connection_manager\<close>; the last
  is a \<open>DummyConnectionManager\<close>, which has no field. No method assigns to a field.
\<close>

datatype agent = ZerePyAgent (agent_name: string) (is_llm_set: bool)

definition ZerePyAgent_init :: "string \<Rightarrow> agent" where
  "ZerePyAgent_init nm = ZerePyAgent nm True"

definition perform_action :: "agent \<Rightarrow> string \<Rightarrow> string \<Rightarrow> string list \<Rightarrow> string" where
  "perform_action self connection action params =
     ''Performed action '' @ [CHR 0x27] @ action @ [CHR 0x27] @ '' on connection ''
       @ [CHR 0x27] @ connection @ [CHR 0x27] @ '' with params '' @ str_list params"

definition prompt_llm :: "agent \<Rightarrow> string \<Rightarrow> string" where
  "prompt_llm self prompt = ''LLM response to: '' @ prompt"

text \<open>The lines that \<open>loop\<close> and \<open>_setup_llm_provider\<close> print.\<close>

definition loop_text :: string where
  "loop_text = ''Running agent loop... (Ctrl+C to stop)''"

definition setup_text :: string where
  "setup_text = ''Setting up LLM provider...''"

section \<open>\<open>cli.py\<close>: commands and the registry\<close>

text \<open>A handler is one of the thirteen bound methods that \<open>_initialize_commands\<close>
  passes to \<open>Command\<close>.\<close>

datatype handler =
    H_help | H_clear_screen | H_agent_action | H_agent_loop | H_list_agents
  | H_load_agent | H_create_agent | H_set_default_agent | H_chat_session
  | H_list_actions | H_configure_connection | H_list_connections | H_exit

datatype command =
  Command (name: string) (description: string) (tips: "string list")
    (handler: handler) (aliases: "string list")

text \<open>\<open>_register_command\<close>: two plain dictionary assignments, no check.\<close>

definition register_command :: "command \<Rightarrow> (string, command) dict \<Rightarrow> (string, command) dict" where
  "register_command command cmds =
     foldl (\<lambda>d alias. dict_set alias command d) (dict_set (name command) command cmds)
       (aliases command)"

text \<open>The commands of \<open>_initialize_commands\<close>, in the order of its calls.\<close>

definition builtin_commands :: "command list" where
  "builtin_commands =
    [Command ''help'' ''Show help'' [''help'', ''help load-agent''] H_help [''h'', ''?''],
     Command ''clear'' ''Clear the screen'' [''clear''] H_clear_screen [''cls''],
     Command ''agent-action'' ''Run agent action'' [''agent-action conn action'']
       H_agent_action [''action'', ''run''],
     Command ''agent-loop'' ''Run agent loop'' [''start''] H_agent_loop [''loop'', ''start''],
     Command ''list-agents'' ''List agent files'' [] H_list_agents [''agents'', ''ls-agents''],
     Command ''load-agent'' ''Load an agent'' [''load-agent agent_name''] H_load_agent [''load''],
     Command ''create-agent'' ''Create new agent'' [] H_create_agent [''new-agent'', ''create''],
     Command ''set-default-agent'' ''Set default agent'' [''default agent_name'']
       H_set_default_agent [''default''],
     Command ''chat'' ''Chat with agent'' [] H_chat_session [''talk''],
     Command ''list-actions'' ''List actions for connection'' [''list-actions conn'']
       H_list_actions [''actions'', ''ls-actions''],
     Command ''configure-connection'' ''Configure a connection'' [''configure-connection conn'']
       H_configure_connection [''config'', ''setup''],
     Command ''list-connections'' ''List all connections'' [] H_list_connections
       [''connections'', ''ls-connections''],
     Command ''exit'' ''Exit CLI'' [''exit''] H_exit [''quit'', ''q'']]"

definition initialize_commands :: "(string, command) dict" where
  "initialize_commands = foldl (\<lambda>cmds command. register_command command cmds) [] builtin_commands"

text \<open>The lookup of \<open>_handle_command\<close>: \<open>self.commands.get(input_list[0].lower())\<close>.\<close>

definition resolve :: "(string, command) dict \<Rightarrow> string \<Rightarrow> command option" where
  "resolve cmds token = map_of cmds (lower token)"

section \<open>\<open>cli.py\<close>: the session\<close>

text \<open>
  The state: the fields \<open>agent\<close> and \<open>commands\<close> of \<open>ZerePyCLI\<close>, what has been shown so
  far, the input still to come, and the file \<open>agents/general.json\<close>: \<open>Inl msg\<close> when
  opening or parsing it raises, else the JSON object it holds, with string values.
\<close>

record state =
  agent :: "agent option"
  commands :: "(string, command) dict"
  console :: "event list"
  stdin :: "input_event list"
  general_json :: "string + (string, string) dict"

definition emit :: "event \<Rightarrow> state \<Rightarrow> state" where
  "emit ev st = st\<lparr>console := console st @ [ev]\<rparr>"

definition logger :: "level \<Rightarrow> string \<Rightarrow> state \<Rightarrow> state" where
  "logger l msg st = emit (Log l msg) st"

definition print :: "string \<Rightarrow> state \<Rightarrow> state" where
  "print s st = emit (Print s) st"

definition print_h_bar :: "state \<Rightarrow> state" where
  "print_h_bar st = print (replicate 60 CHR ''-'') st"

text \<open>
  The methods of \<open>agent.py\<close> that print: \<open>_setup_llm_provider\<close> of the agent, and
  \<open>list_actions\<close>, \<open>configure_connection\<close> and \<open>list_connections\<close> of its connection
  manager (here with the prefix \<open>cm_\<close>). None of them assigns to a field.
\<close>

definition setup_llm_provider :: "agent \<Rightarrow> state \<Rightarrow> state" where
  "setup_llm_provider self st = print setup_text st"

definition cm_list_actions :: "string \<Rightarrow> state \<Rightarrow> state" where
  "cm_list_actions connection_name st =
     print (''Available actions for connection '' @ [CHR 0x27] @ connection_name @ [CHR 0x27]) st"

definition cm_configure_connection :: "string \<Rightarrow> state \<Rightarrow> state" where
  "cm_configure_connection connection_name st =
     print (''Configuring connection '' @ [CHR 0x27] @ connection_name @ [CHR 0x27]) st"

definition cm_list_connections :: "state \<Rightarrow> state" where
  "cm_list_connections st = print ''Available connections: example_connection'' st"

text \<open>The characters in front of two log texts, as the bytes of the source file.\<close>

definition wave :: string where
  "wave = [CHR 0xC3, CHR 0xB0, CHR 0xC5, CHR 0xB8, CHR 0xE2, CHR 0x80, CHR 0x98,
           CHR 0xE2, CHR 0x80, CHR 0xB9]"

definition check_mark :: string where
  "check_mark = [CHR 0xC3, CHR 0xA2, CHR 0xC5, CHR 0x93, CHR 0xE2, CHR 0x80, CHR 0xA6]"

text \<open>
  \<open>_get_prompt_message\<close>: \<open>prompt_text\<close> is the f-string, with the agent's name put in as
  it is; \<open>HTML(...)\<close> then returns the markup or raises (\<open>Inl\<close>).
\<close>

definition prompt_text :: "agent option \<Rightarrow> string" where
  "prompt_text ag =
     (let agent_status = (case ag of Some a \<Rightarrow> ''('' @ agent_name a @ '')''
                                    | None \<Rightarrow> ''(no agent)'')
      in ''<prompt>ZerePy-CLI</prompt> '' @ agent_status @ '' > '')"

definition get_prompt_message :: "env \<Rightarrow> state \<Rightarrow> string + string" where
  "get_prompt_message e st =
     (case html_raises e (prompt_text (agent st)) of
        Some msg \<Rightarrow> Inl msg
      | None \<Rightarrow> Inr (prompt_text (agent st)))"

definition get_command_suggestions :: "string \<Rightarrow> state \<Rightarrow> string list" where
  "get_command_suggestions command st =
     get_close_matches command (map fst (commands st)) 3 (6 / 10)"

definition handle_unknown_command :: "string \<Rightarrow> state \<Rightarrow> state" where
  "handle_unknown_command command st =
     (let st1 = logger WARNING (''Unknown command: '' @ [CHR 0x27] @ command @ [CHR 0x27]) st;
          suggestions = get_command_suggestions command st1;
          st2 = (if suggestions \<noteq> []
                 then foldl (\<lambda>s sug. logger INFO (''  - '' @ sug) s)
                        (logger INFO ''Did you mean?'' st1) suggestions
                 else st1)
      in logger INFO ''Use 'help' to see all commands.'' st2)"

definition print_welcome_message :: "state \<Rightarrow> state" where
  "print_welcome_message st =
     print_h_bar (logger INFO ''Type 'help' to list commands.''
       (logger INFO (wave @ '' Welcome to the ZerePy CLI!'') (print_h_bar st)))"

definition load_agent_from_file :: "env \<Rightarrow> string \<Rightarrow> state \<Rightarrow> state" where
  "load_agent_from_file e nm st =
     (case init_raises e nm of
        Some msg \<Rightarrow> logger ERROR (''Could not load agent: '' @ msg) st
      | None \<Rightarrow>
          (let a = ZerePyAgent_init nm
           in logger INFO (check_mark @ '' Loaded agent: '' @ agent_name a)
                (st\<lparr>agent := Some a\<rparr>)))"

definition load_default_agent :: "env \<Rightarrow> state \<Rightarrow> state" where
  "load_default_agent e st =
     (case general_json st of
        Inl msg \<Rightarrow> logger WARNING (''Failed to load default agent: '' @ msg) st
      | Inr data \<Rightarrow>
          (case map_of data ''default_agent'' of
             Some default_agent \<Rightarrow>
               if default_agent \<noteq> [] then load_agent_from_file e default_agent st
               else logger WARNING ''No default agent set.'' st
           | None \<Rightarrow> logger WARNING ''No default agent set.'' st))"

text \<open>The listing loop of \<open>help\<close> over \<open>self.commands.values()\<close>, with the set \<open>seen\<close>.
  \<open>{cmd.name:<20}\<close> pads the name with spaces on the right to 20 characters.\<close>

definition ljust :: "nat \<Rightarrow> string \<Rightarrow> string" where
  "ljust w s = s @ replicate (w - length s) CHR '' ''"

fun help_listing :: "command list \<Rightarrow> string set \<Rightarrow> state \<Rightarrow> state" where
  "help_listing [] seen st = st"
| "help_listing (cmd # cmds) seen st =
     (if name cmd \<notin> seen
      then help_listing cmds (insert (name cmd) seen)
             (logger INFO (''  '' @ ljust 20 (name cmd) @ '' - '' @ description cmd) st)
      else help_listing cmds seen st)"

text \<open>The method \<open>help\<close>.\<close>

definition help_command :: "string list \<Rightarrow> state \<Rightarrow> state" where
  "help_command input_list st =
     (if length input_list > 1 then
        (case map_of (commands st) (input_list ! 1) of
           Some cmd \<Rightarrow>
             foldl (\<lambda>s tip. logger INFO (''  - '' @ tip) s)
               (logger INFO (name cmd @ '': '' @ description cmd) st) (tips cmd)
         | None \<Rightarrow> logger WARNING ''Command not found.'' st)
      else help_listing (map snd (commands st)) {} (logger INFO ''Commands:'' st))"

definition clear_screen :: "env \<Rightarrow> string list \<Rightarrow> state \<Rightarrow> state" where
  "clear_screen e input_list st =
     print_welcome_message (emit (System (if os_name e = ''nt'' then ''cls'' else ''clear'')) st)"

definition agent_action :: "string list \<Rightarrow> state \<Rightarrow> state" where
  "agent_action input_list st =
     (case agent st of
        None \<Rightarrow> logger INFO ''No agent loaded.'' st
      | Some a \<Rightarrow>
          if length input_list < 3 then logger INFO ''Usage: agent-action <connection> <action>'' st
          else logger INFO (''Result: ''
                 @ perform_action a (input_list ! 1) (input_list ! 2) (drop 3 input_list)) st)"

text \<open>\<open>agent.loop()\<close> prints one line; Ctrl+C during the call raises \<open>KeyboardInterrupt\<close>
  out of it.\<close>

definition loop :: "env \<Rightarrow> agent \<Rightarrow> state \<Rightarrow> outcome \<times> state" where
  "loop e self st =
     (if loop_interrupted e then Raised KeyboardInterrupt else Returned, print loop_text st)"

definition agent_loop :: "env \<Rightarrow> string list \<Rightarrow> state \<Rightarrow> outcome \<times> state" where
  "agent_loop e input_list st =
     (case agent st of
        None \<Rightarrow> (Returned, logger INFO ''No agent loaded.'' st)
      | Some a \<Rightarrow>
          (case loop e a st of
             (Raised KeyboardInterrupt, st') \<Rightarrow> (Returned, logger INFO ''Stopped.'' st')
           | r \<Rightarrow> r))"

definition list_agents :: "env \<Rightarrow> string list \<Rightarrow> state \<Rightarrow> state" where
  "list_agents e input_list st =
     foldl (\<lambda>s stem. if stem \<noteq> ''general'' then logger INFO (''- '' @ stem) s else s)
       st (agent_files e)"

definition load_agent :: "env \<Rightarrow> string list \<Rightarrow> state \<Rightarrow> state" where
  "load_agent e input_list st =
     (if length input_list < 2 then logger INFO ''Usage: load-agent <agent_name>'' st
      else load_agent_from_file e (input_list ! 1) st)"

definition create_agent :: "string list \<Rightarrow> state \<Rightarrow> state" where
  "create_agent input_list st =
     logger INFO ''Manual creation: add a .json file in agents/ folder.'' st"

definition set_default_agent :: "string list \<Rightarrow> state \<Rightarrow> state" where
  "set_default_agent input_list st =
     (if length input_list < 2 then logger INFO ''Usage: set-default-agent <agent_name>'' st
      else
        (case general_json st of
           Inl msg \<Rightarrow> logger ERROR (''Error updating default agent: '' @ msg) st
         | Inr data \<Rightarrow>
             logger INFO (''Default agent set to '' @ input_list ! 1)
               (st\<lparr>general_json := Inr (dict_set ''default_agent'' (input_list ! 1) data)\<rparr>)))"

definition list_actions :: "string list \<Rightarrow> state \<Rightarrow> state" where
  "list_actions input_list st =
     (case agent st of
        None \<Rightarrow> logger INFO ''No agent loaded.'' st
      | Some a \<Rightarrow>
          if length input_list < 2 then logger INFO ''Usage: list-actions <connection>'' st
          else cm_list_actions (input_list ! 1) st)"

definition configure_connection :: "string list \<Rightarrow> state \<Rightarrow> state" where
  "configure_connection input_list st =
     (case agent st of
        None \<Rightarrow> logger INFO ''No agent loaded.'' st
      | Some a \<Rightarrow>
          if length input_list < 2 then logger INFO ''Usage: configure-connection <connection>'' st
          else cm_configure_connection (input_list ! 1) st)"

definition list_connections :: "string list \<Rightarrow> state \<Rightarrow> state" where
  "list_connections input_list st =
     (case agent st of
        Some a \<Rightarrow> cm_list_connections st
      | None \<Rightarrow> logger INFO ''No agent loaded.'' st)"

text \<open>
  The \<open>while True\<close> loop of \<open>chat_session\<close>, over the input still to come. The prompt
  text is a newline and \<open>You: \<close>. \<open>EOFError\<close> is not caught here; its \<open>str\<close> is empty.
\<close>

definition chat_prompt :: string where
  "chat_prompt = CHR 0x0A # ''You: ''"

fun chat_loop :: "agent \<Rightarrow> input_event list \<Rightarrow> state \<Rightarrow> outcome \<times> state" where
  "chat_loop a [] st = (Blocked, emit (Prompt chat_prompt) (st\<lparr>stdin := []\<rparr>))"
| "chat_loop a (ev # evs) st =
     (let st' = emit (Prompt chat_prompt) (st\<lparr>stdin := evs\<rparr>) in
      case ev of
        Line message \<Rightarrow>
          if lower (strip message) = ''exit'' then (Returned, st')
          else chat_loop a evs
                 (print_h_bar (logger INFO (agent_name a @ '': '' @ prompt_llm a message) st'))
      | Interrupt \<Rightarrow> (Returned, st')
      | EOF \<Rightarrow> (Raised (Exception []), st'))"

definition chat_session :: "string list \<Rightarrow> state \<Rightarrow> outcome \<times> state" where
  "chat_session input_list st =
     (case agent st of
        None \<Rightarrow> (Returned, logger INFO ''Load an agent first.'' st)
      | Some a \<Rightarrow>
          (let st1 = (if \<not> is_llm_set a then setup_llm_provider a st else st);
               st2 = print_h_bar (logger INFO (''Chatting with '' @ agent_name a) (print_h_bar st1))
           in chat_loop a (stdin st2) st2))"

text \<open>\<open>exit\<close>: \<open>sys.exit(0)\<close> raises \<open>SystemExit(0)\<close>.\<close>

definition exit :: "string list \<Rightarrow> state \<Rightarrow> outcome \<times> state" where
  "exit input_list st = (Raised (SystemExit 0), logger INFO ''Goodbye!'' st)"

section \<open>\<open>cli.py\<close>: dispatch and the main loop\<close>

text \<open>\<open>command.handler(input_list)\<close>.\<close>

fun invoke :: "env \<Rightarrow> handler \<Rightarrow> string list \<Rightarrow> state \<Rightarrow> outcome \<times> state" where
  "invoke e H_help input_list st = (Returned, help_command input_list st)"
| "invoke e H_clear_screen input_list st = (Returned, clear_screen e input_list st)"
| "invoke e H_agent_action input_list st = (Returned, agent_action input_list st)"
| "invoke e H_agent_loop input_list st = agent_loop e input_list st"
| "invoke e H_list_agents input_list st = (Returned, list_agents e input_list st)"
| "invoke e H_load_agent input_list st = (Returned, load_agent e input_list st)"
| "invoke e H_create_agent input_list st = (Returned, create_agent input_list st)"
| "invoke e H_set_default_agent input_list st = (Returned, set_default_agent input_list st)"
| "invoke e H_chat_session input_list st = chat_session input_list st"
| "invoke e H_list_actions input_list st = (Returned, list_actions input_list st)"
| "invoke e H_configure_connection input_list st = (Returned, configure_connection input_list st)"
| "invoke e H_list_connections input_list st = (Returned, list_connections input_list st)"
| "invoke e H_exit input_list st = exit input_list st"

text \<open>The body of the \<open>try\<close> of \<open>_handle_command\<close>, then the whole method with its
  \<open>except Exception\<close>.\<close>

definition handle_command_body :: "env \<Rightarrow> string \<Rightarrow> state \<Rightarrow> outcome \<times> state" where
  "handle_command_body e input_string st =
     (case shlex_split input_string of
        Inl msg \<Rightarrow> (Raised (Exception msg), st)
      | Inr input_list \<Rightarrow>
          if input_list = [] then (Returned, st)
          else
            (let command_string = lower (input_list ! 0) in
             case map_of (commands st) command_string of
               Some command \<Rightarrow> invoke e (handler command) input_list st
             | None \<Rightarrow> (Returned, handle_unknown_command command_string st)))"

definition handle_command :: "env \<Rightarrow> string \<Rightarrow> state \<Rightarrow> outcome \<times> state" where
  "handle_command e input_string st =
     (case handle_command_body e input_string st of
        (Raised (Exception msg), st') \<Rightarrow> (Returned, logger ERROR (''Error: '' @ msg) st')
      | r \<Rightarrow> r)"

text \<open>
  What the methods leave alone. No method consumes input except \<open>chat_session\<close>, and
  none adds input; the main loop below terminates by that.
\<close>

lemma emit_fields [simp]:
  "agent (emit ev st) = agent st"
  "commands (emit ev st) = commands st"
  "stdin (emit ev st) = stdin st"
  "general_json (emit ev st) = general_json st"
  "console (emit ev st) = console st @ [ev]"
  by (simp_all add: emit_def)

lemma logger_fields [simp]:
  "agent (logger l m st) = agent st"
  "commands (logger l m st) = commands st"
  "stdin (logger l m st) = stdin st"
  "general_json (logger l m st) = general_json st"
  "console (logger l m st) = console st @ [Log l m]"
  by (simp_all add: logger_def)

lemma print_fields [simp]:
  "agent (print s st) = agent st"
  "commands (print s st) = commands st"
  "stdin (print s st) = stdin st"
  "general_json (print s st) = general_json st"
  "console (print s st) = console st @ [Print s]"
  by (simp_all add: print_def)

lemma print_h_bar_fields [simp]:
  "agent (print_h_bar st) = agent st"
  "commands (print_h_bar st) = commands st"
  "stdin (print_h_bar st) = stdin st"
  "general_json (print_h_bar st) = general_json st"
  "console (print_h_bar st) = console st @ [Print (replicate 60 CHR ''-'')]"
  by (simp_all add: print_h_bar_def)

lemma foldl_logger:
  "foldl (\<lambda>s x. logger l (f x) s) st xs = st\<lparr>console := console st @ map (\<lambda>x. Log l (f x)) xs\<rparr>"
  by (induction xs arbitrary: st) (simp_all add: logger_def emit_def)

lemma help_listing_frame:
  "agent (help_listing cmds seen st) = agent st
   \<and> commands (help_listing cmds seen st) = commands st
   \<and> stdin (help_listing cmds seen st) = stdin st
   \<and> general_json (help_listing cmds seen st) = general_json st"
  by (induction cmds seen st rule: help_listing.induct) simp_all


lemma foldl_logger_if:
  "foldl (\<lambda>s x. if P x then logger l (f x) s else s) st xs
     = st\<lparr>console := console st @ map (\<lambda>x. Log l (f x)) (filter P xs)\<rparr>"
  by (induction xs arbitrary: st) (simp_all add: logger_def emit_def)

lemma list_agents_eq:
  "list_agents e il st = st\<lparr>console := console st
      @ map (\<lambda>stem. Log INFO (''- '' @ stem)) (filter (\<lambda>stem. stem \<noteq> ''general'') (agent_files e))\<rparr>"
  unfolding list_agents_def by (rule foldl_logger_if)

lemma chat_loop_stdin: "length (stdin (snd (chat_loop a evs st))) \<le> length evs"
  by (induction a evs st rule: chat_loop.induct)
     (auto simp: Let_def split: input_event.splits intro: le_SucI)

lemma chat_loop_frame:
  "agent (snd (chat_loop a evs st)) = agent st
   \<and> commands (snd (chat_loop a evs st)) = commands st
   \<and> general_json (snd (chat_loop a evs st)) = general_json st"
  by (induction a evs st rule: chat_loop.induct)
     (auto simp: Let_def split: input_event.splits)

lemma handle_unknown_command_frame:
  "agent (handle_unknown_command c st) = agent st
   \<and> commands (handle_unknown_command c st) = commands st
   \<and> stdin (handle_unknown_command c st) = stdin st
   \<and> general_json (handle_unknown_command c st) = general_json st"
  by (simp add: handle_unknown_command_def Let_def foldl_logger)

lemma load_agent_from_file_frame:
  "commands (load_agent_from_file e nm st) = commands st
   \<and> stdin (load_agent_from_file e nm st) = stdin st
   \<and> general_json (load_agent_from_file e nm st) = general_json st"
  by (simp add: load_agent_from_file_def Let_def split: option.splits)

lemma invoke_stdin: "length (stdin (snd (invoke e h il st))) \<le> length (stdin st)"
proof (cases h)
  case H_help
  then show ?thesis
    by (simp add: help_command_def help_listing_frame foldl_logger split: option.splits)
next
  case H_clear_screen
  then show ?thesis by (simp add: clear_screen_def print_welcome_message_def)
next
  case H_agent_action
  then show ?thesis by (simp add: agent_action_def split: option.splits)
next
  case H_agent_loop
  then show ?thesis
    by (simp add: agent_loop_def loop_def split: option.splits)
next
  case H_list_agents
  then show ?thesis by (simp add: list_agents_eq)
next
  case H_load_agent
  then show ?thesis by (simp add: load_agent_def load_agent_from_file_frame)
next
  case H_create_agent
  then show ?thesis by (simp add: create_agent_def)
next
  case H_set_default_agent
  then show ?thesis by (simp add: set_default_agent_def split: sum.splits)
next
  case H_chat_session
  then show ?thesis
    using chat_loop_stdin[of "the (agent st)"]
    by (auto simp add: chat_session_def setup_llm_provider_def Let_def split: option.splits intro: order_trans[OF chat_loop_stdin])
next
  case H_list_actions
  then show ?thesis by (simp add: list_actions_def cm_list_actions_def split: option.splits)
next
  case H_configure_connection
  then show ?thesis by (simp add: configure_connection_def cm_configure_connection_def split: option.splits)
next
  case H_list_connections
  then show ?thesis by (simp add: list_connections_def cm_list_connections_def split: option.splits)
next
  case H_exit
  then show ?thesis by (simp add: exit_def)
qed

lemma handle_command_body_stdin:
  "length (stdin (snd (handle_command_body e s st))) \<le> length (stdin st)"
  by (simp add: handle_command_body_def Let_def invoke_stdin handle_unknown_command_frame
      split: sum.splits option.splits)

lemma handle_command_stdin:
  "length (stdin (snd (handle_command e s st))) \<le> length (stdin st)"
  using handle_command_body_stdin[of e s st]
  by (auto simp add: handle_command_def split: prod.splits outcome.splits exn.splits)

lemma handle_command_stdin_less:
  "(r, y) = handle_command e s st \<Longrightarrow> stdin st = evs \<Longrightarrow> length (stdin y) < Suc (length evs)"
  using handle_command_stdin[of e s st] by (metis le_imp_less_Suc snd_conv)

text \<open>
  The \<open>while True\<close> loop of \<open>main_loop\<close>, over the input still to come. It ends when an
  exception leaves it (\<open>Raised\<close>) or when the scripted input is used up (\<open>Blocked\<close>).
  The prompt message is built first, inside the \<open>try\<close>; its \<open>ExpatError\<close> is neither
  \<open>KeyboardInterrupt\<close> nor \<open>EOFError\<close>, so it leaves the loop.
\<close>

function repl :: "env \<Rightarrow> state \<Rightarrow> outcome \<times> state" where
  "repl e st =
     (case get_prompt_message e st of
        Inl msg \<Rightarrow> (Raised (Exception msg), st)
      | Inr message \<Rightarrow>
         (case stdin st of
            [] \<Rightarrow> (Blocked, emit (Prompt message) st)
          | ev # evs \<Rightarrow>
              (let st1 = emit (Prompt message) (st\<lparr>stdin := evs\<rparr>) in
               case ev of
                 Line user_input \<Rightarrow>
                   if strip user_input \<noteq> [] then
                     (case handle_command e (strip user_input) st1 of
                        (Returned, st2) \<Rightarrow> repl e (print_h_bar st2)
                      | (Raised KeyboardInterrupt, st2) \<Rightarrow> repl e st2
                      | (Raised ex, st2) \<Rightarrow> (Raised ex, st2)
                      | (Blocked, st2) \<Rightarrow> (Blocked, st2))
                   else repl e st1
               | Interrupt \<Rightarrow> repl e st1
               | EOF \<Rightarrow> exit [] st1)))"
  by pat_completeness auto
termination
  apply (relation "measure (\<lambda>(e, st). length (stdin st))")
  apply simp_all
  apply (erule handle_command_stdin_less, simp)+
  done

declare repl.simps [simp del]

text \<open>\<open>main_loop\<close>, and the state in which \<open>main\<close> starts it: \<open>ZerePyCLI()\<close> has no
  agent and the built-in registry.\<close>

definition main_loop :: "env \<Rightarrow> state \<Rightarrow> outcome \<times> state" where
  "main_loop e st = repl e (load_default_agent e (print_welcome_message st))"

definition ZerePyCLI_init :: "input_event list \<Rightarrow> string + (string, string) dict \<Rightarrow> state" where
  "ZerePyCLI_init inp file =
     \<lparr>agent = None, commands = initialize_commands, console = [], stdin = inp,
      general_json = file\<rparr>"

definition main :: "env \<Rightarrow> input_event list \<Rightarrow> string + (string, string) dict \<Rightarrow> outcome \<times> state" where
  "main e inp file = main_loop e (ZerePyCLI_init inp file)"

text \<open>An environment for examples: no prompt text is refused, no constructor call raises, no Ctrl+C during the
  agent loop, no agent files, a POSIX system.\<close>

definition quiet_env :: env where
  "quiet_env = \<lparr>html_raises = Map.empty, init_raises = Map.empty, loop_interrupted = False, agent_files = [],
     os_name = ''posix''\<rparr>"

section \<open>The registry\<close>

text \<open>The keys under which a command is registered: its name, then its aliases.\<close>

definition keys_of :: "command \<Rightarrow> string list" where
  "keys_of c = name c # aliases c"

lemma lower_char_idem: "lower_char (lower_char c) = lower_char c"
  by (simp add: lower_char_def Let_def)

lemma lower_idem: "lower (lower s) = lower s"
  by (simp add: lower_def lower_char_idem)

lemma map_of_dict_set:
  "map_of (dict_set k v d) k' = (if k' = k then Some v else map_of d k')"
  by (induction d) auto

lemma map_of_foldl_dict_set:
  "map_of (foldl (\<lambda>d a. dict_set a c d) d0 as) k
     = (if k \<in> set as then Some c else map_of d0 k)"
  by (induction as arbitrary: d0) (auto simp: map_of_dict_set)

lemma map_of_register_command:
  "map_of (register_command c cmds) k
     = (if k \<in> set (keys_of c) then Some c else map_of cmds k)"
  by (auto simp: register_command_def map_of_foldl_dict_set map_of_dict_set keys_of_def)

lemma map_of_register_all:
  "map_of (foldl (\<lambda>cmds c. register_command c cmds) d0 cs) k
     = (case find (\<lambda>c. k \<in> set (keys_of c)) (rev cs) of
          Some c \<Rightarrow> Some c | None \<Rightarrow> map_of d0 k)"
  by (induction cs rule: rev_induct) (auto simp: map_of_register_command)

lemma find_disjoint_keys:
  "distinct (concat (map keys_of cs)) \<Longrightarrow>
   (find (\<lambda>c. k \<in> set (keys_of c)) (rev cs) = Some c)
     = (c \<in> set cs \<and> k \<in> set (keys_of c))"
proof (induction cs rule: rev_induct)
  case Nil
  then show ?case by simp
next
  case (snoc x xs)
  then show ?case by auto
qed

lemma builtin_keys_distinct:
  "distinct (concat (map keys_of builtin_commands))"
  by (simp add: builtin_commands_def keys_of_def)

lemma builtin_keys_lower:
  "\<forall>c \<in> set builtin_commands. \<forall>k \<in> set (keys_of c). lower k = k"
  by code_simp

lemma initialize_commands_map_of:
  "(map_of initialize_commands k = Some c)
     = (c \<in> set builtin_commands \<and> k \<in> set (keys_of c))"
  unfolding initialize_commands_def
  by (simp only: map_of_register_all find_disjoint_keys[OF builtin_keys_distinct, symmetric])
     (simp split: option.splits)

lemma initialize_commands_eq:
  "initialize_commands = concat (map (\<lambda>c. map (\<lambda>k. (k, c)) (keys_of c)) builtin_commands)"
  by code_simp

text \<open>
  \<^bold>\<open>C1\<close> (as the code has it). \<open>_register_command\<close> never fails. It stores the command
  under its name and under each of its aliases, replacing whatever was stored under
  those keys, and leaves every other key alone. The thirteen built-in commands share
  no key, so building the registry replaces nothing.
\<close>

theorem register_command_overwrites:
  "(\<forall>k \<in> set (keys_of c). map_of (register_command c cmds) k = Some c)
   \<and> (\<forall>k. k \<notin> set (keys_of c) \<longrightarrow> map_of (register_command c cmds) k = map_of cmds k)
   \<and> distinct (concat (map keys_of builtin_commands))"
  by (simp add: map_of_register_command builtin_keys_distinct)

theorem register_command_overwrites_witness:
  "''b'' \<in> set (keys_of (Command ''a'' ''A'' [] H_help [''b'']))
   \<and> map_of (register_command (Command ''a'' ''A'' [] H_help [''b''])
        [(''b'', Command ''b'' ''B'' [] H_exit [])]) ''b''
      = Some (Command ''a'' ''A'' [] H_help [''b''])
   \<and> ''z'' \<notin> set (keys_of (Command ''a'' ''A'' [] H_help [''b'']))
   \<and> map_of (register_command (Command ''a'' ''A'' [] H_help [''b''])
        [(''b'', Command ''b'' ''B'' [] H_exit [])]) ''z'' = None"
proof -
  let ?c = "Command ''a'' ''A'' [] H_help [''b'']"
  let ?d = "[(''b'', Command ''b'' ''B'' [] H_exit [])]"
  have h1: "''b'' \<in> set (keys_of ?c)" by (simp add: keys_of_def)
  have h2: "''z'' \<notin> set (keys_of ?c)" by (simp add: keys_of_def)
  from register_command_overwrites[of ?c ?d] h1
  have r1: "map_of (register_command ?c ?d) ''b'' = Some ?c" by blast
  from register_command_overwrites[of ?c ?d] h2
  have "map_of (register_command ?c ?d) ''z'' = map_of ?d ''z''" by blast
  then have r2: "map_of (register_command ?c ?d) ''z'' = None" by simp
  from h1 h2 r1 r2 show ?thesis by blast
qed

text \<open>
  Against \<^bold>\<open>C1\<close> as stated: registering a command whose alias \<open>q\<close> is taken by \<open>exit\<close>
  does not fail; afterwards \<open>q\<close> is the new command.
\<close>

theorem register_command_collision_counterexample:
  "map_of initialize_commands ''q''
     = Some (Command ''exit'' ''Exit CLI'' [''exit''] H_exit [''quit'', ''q''])
   \<and> map_of (register_command (Command ''query'' ''Ask'' [] H_help [''q'']) initialize_commands) ''q''
     = Some (Command ''query'' ''Ask'' [] H_help [''q''])"
  by (simp add: map_of_register_command keys_of_def initialize_commands_map_of builtin_commands_def)

text \<open>
  \<^bold>\<open>C4\<close>. For each of the registered commands, looking up its name and looking up any
  of its aliases give that same command, and an alias of one command is a key of no
  other command.
\<close>

theorem resolve_name_and_aliases:
  "\<forall>c \<in> set builtin_commands.
     resolve initialize_commands (name c) = Some c
     \<and> (\<forall>a \<in> set (aliases c).
          resolve initialize_commands a = Some c
          \<and> (\<forall>c' \<in> set builtin_commands. a \<in> set (keys_of c') \<longrightarrow> c' = c))"
proof (intro ballI conjI impI)
  fix c assume c: "c \<in> set builtin_commands"
  have "name c \<in> set (keys_of c)" by (simp add: keys_of_def)
  with c builtin_keys_lower have "lower (name c) = name c" by blast
  with c show "resolve initialize_commands (name c) = Some c"
    by (simp add: resolve_def initialize_commands_map_of keys_of_def)
  fix a assume a: "a \<in> set (aliases c)"
  then have ak: "a \<in> set (keys_of c)" by (simp add: keys_of_def)
  with c builtin_keys_lower have "lower a = a" by blast
  with c ak show "resolve initialize_commands a = Some c"
    by (simp add: resolve_def initialize_commands_map_of)
  fix c' assume "c' \<in> set builtin_commands" "a \<in> set (keys_of c')"
  then have "map_of initialize_commands a = Some c'"
    by (simp add: initialize_commands_map_of)
  moreover from c ak have "map_of initialize_commands a = Some c"
    by (simp add: initialize_commands_map_of)
  ultimately show "c' = c" by simp
qed

theorem resolve_name_and_aliases_witness:
  "Command ''agent-action'' ''Run agent action'' [''agent-action conn action'']
       H_agent_action [''action'', ''run''] \<in> set builtin_commands
   \<and> ''run'' \<in> set (aliases (Command ''agent-action'' ''Run agent action''
         [''agent-action conn action''] H_agent_action [''action'', ''run'']))
   \<and> resolve initialize_commands ''agent-action'' = resolve initialize_commands ''run''
   \<and> resolve initialize_commands ''run''
      = Some (Command ''agent-action'' ''Run agent action'' [''agent-action conn action'']
       H_agent_action [''action'', ''run''])"
proof -
  let ?c = "Command ''agent-action'' ''Run agent action'' [''agent-action conn action'']
       H_agent_action [''action'', ''run'']"
  have h1: "?c \<in> set builtin_commands" by (simp add: builtin_commands_def)
  have h2: "''run'' \<in> set (aliases ?c)" by simp
  from resolve_name_and_aliases h1 have
    "resolve initialize_commands (name ?c) = Some ?c
     \<and> (\<forall>a \<in> set (aliases ?c). resolve initialize_commands a = Some ?c
          \<and> (\<forall>c' \<in> set builtin_commands. a \<in> set (keys_of c') \<longrightarrow> c' = ?c))"
    by (rule bspec)
  with h2 have "resolve initialize_commands (name ?c) = Some ?c"
    and "resolve initialize_commands ''run'' = Some ?c" by blast+
  with h1 h2 show ?thesis by simp
qed

text \<open>
  \<^bold>\<open>C5\<close>. The lookup lower-cases the token first, so a token and its lower-cased form
  resolve alike in any registry, and \<open>HELP\<close> resolves as \<open>help\<close>. In the built-in
  registry a token resolves to a command exactly when it equals one of the command's
  keys up to case, and to nothing exactly when it equals no key up to case.
\<close>

theorem resolve_case_insensitive:
  "resolve cmds (lower token) = resolve cmds token
   \<and> resolve initialize_commands ''HELP'' = resolve initialize_commands ''help''
   \<and> (resolve initialize_commands token = Some c
        \<longleftrightarrow> c \<in> set builtin_commands \<and> (\<exists>k \<in> set (keys_of c). lower token = lower k))
   \<and> (resolve initialize_commands token = None
        \<longleftrightarrow> (\<forall>c \<in> set builtin_commands. \<forall>k \<in> set (keys_of c). lower token \<noteq> lower k))"
proof (intro conjI)
  show "resolve cmds (lower token) = resolve cmds token"
    by (simp add: resolve_def lower_idem)
  have "lower ''HELP'' = ''help''" by code_simp
  moreover have "lower ''help'' = ''help''" by code_simp
  ultimately show "resolve initialize_commands ''HELP'' = resolve initialize_commands ''help''"
    by (simp add: resolve_def)
  show some: "\<And>c. resolve initialize_commands token = Some c
        \<longleftrightarrow> c \<in> set builtin_commands \<and> (\<exists>k \<in> set (keys_of c). lower token = lower k)"
    using builtin_keys_lower by (auto simp: resolve_def initialize_commands_map_of)
  show "resolve initialize_commands token = None
        \<longleftrightarrow> (\<forall>c \<in> set builtin_commands. \<forall>k \<in> set (keys_of c). lower token \<noteq> lower k)"
  proof -
    have "resolve initialize_commands token = None
        \<longleftrightarrow> (\<forall>c. resolve initialize_commands token \<noteq> Some c)" by auto
    also have "\<dots> \<longleftrightarrow> (\<forall>c. \<not> (c \<in> set builtin_commands
        \<and> (\<exists>k \<in> set (keys_of c). lower token = lower k)))"
      by (simp only: some)
    also have "\<dots> \<longleftrightarrow> (\<forall>c \<in> set builtin_commands. \<forall>k \<in> set (keys_of c). lower token \<noteq> lower k)"
      by blast
    finally show ?thesis .
  qed
qed

theorem resolve_case_insensitive_witness:
  "Command ''load-agent'' ''Load an agent'' [''load-agent agent_name''] H_load_agent [''load'']
      \<in> set builtin_commands
   \<and> ''load'' \<in> set (keys_of (Command ''load-agent'' ''Load an agent'' [''load-agent agent_name'']
        H_load_agent [''load'']))
   \<and> lower ''LoAd'' = lower ''load''
   \<and> resolve initialize_commands ''LoAd''
      = Some (Command ''load-agent'' ''Load an agent'' [''load-agent agent_name'']
          H_load_agent [''load''])"
proof -
  let ?c = "Command ''load-agent'' ''Load an agent'' [''load-agent agent_name'']
        H_load_agent [''load'']"
  have h1: "?c \<in> set builtin_commands" by (simp add: builtin_commands_def)
  have h2: "''load'' \<in> set (keys_of ?c)" by (simp add: keys_of_def)
  have h3: "lower ''LoAd'' = lower ''load''" by code_simp
  from resolve_case_insensitive[of initialize_commands "''LoAd''" ?c] h1 h2 h3
  have "resolve initialize_commands ''LoAd'' = Some ?c" by blast
  with h1 h2 h3 show ?thesis by blast
qed

lemma help_listing_builtin:
  "help_listing (map snd initialize_commands) {} st
     = st\<lparr>console := console st
          @ map (\<lambda>c. Log INFO (''  '' @ ljust 20 (name c) @ '' - '' @ description c))
              builtin_commands\<rparr>"
  by (simp add: initialize_commands_eq builtin_commands_def keys_of_def logger_def emit_def)

text \<open>
  \<^bold>\<open>C7\<close>. \<open>help\<close> without argument logs the heading and then one line per command, in
  the order of registration: thirteen lines with thirteen different names, although
  the registry has 35 entries. Nothing else changes.
\<close>

theorem help_lists_each_command_once:
  "commands st = initialize_commands \<Longrightarrow>
   help_command [tok] st
     = st\<lparr>console := console st
          @ Log INFO ''Commands:''
          # map (\<lambda>c. Log INFO (''  '' @ ljust 20 (name c) @ '' - '' @ description c))
              builtin_commands\<rparr>
   \<and> distinct (map name builtin_commands)
   \<and> length builtin_commands = 13 \<and> length (commands st) = 35"
proof (intro conjI)
  assume c: "commands st = initialize_commands"
  show "help_command [tok] st
     = st\<lparr>console := console st
          @ Log INFO ''Commands:''
          # map (\<lambda>c. Log INFO (''  '' @ ljust 20 (name c) @ '' - '' @ description c))
              builtin_commands\<rparr>"
    by (simp add: help_command_def c help_listing_builtin)
  show "distinct (map name builtin_commands)" by (simp add: builtin_commands_def)
  show "length builtin_commands = 13" by (simp add: builtin_commands_def)
  show "length (commands st) = 35"
    by (simp add: c initialize_commands_eq builtin_commands_def keys_of_def)
qed

theorem help_lists_each_command_once_witness:
  "commands (ZerePyCLI_init [] (Inl [])) = initialize_commands
   \<and> console (help_command [''help''] (ZerePyCLI_init [] (Inl [])))
     = Log INFO ''Commands:''
       # map (\<lambda>c. Log INFO (''  '' @ ljust 20 (name c) @ '' - '' @ description c))
           builtin_commands"
proof -
  have h: "commands (ZerePyCLI_init [] (Inl [])) = initialize_commands"
    by (simp add: ZerePyCLI_init_def)
  from help_lists_each_command_once[OF h, of "''help''"]
  have "help_command [''help''] (ZerePyCLI_init [] (Inl []))
     = (ZerePyCLI_init [] (Inl []))\<lparr>console := console (ZerePyCLI_init [] (Inl []))
          @ Log INFO ''Commands:''
          # map (\<lambda>c. Log INFO (''  '' @ ljust 20 (name c) @ '' - '' @ description c))
              builtin_commands\<rparr>" by (rule conjunct1)
  then show ?thesis using h by (simp add: ZerePyCLI_init_def)
qed

text \<open>A token of plain characters (no whitespace, quote or backslash) is one token of
  \<open>shlex.split\<close>, and so is every spelling of a built-in key.\<close>

lemma read_tokens_plain:
  "\<forall>ch \<in> set cs. \<not> shlex_whitespace ch \<and> \<not> shlex_quote ch \<and> ch \<noteq> CHR 0x5C \<Longrightarrow>
   read_tokens In_word tok q cs = Inr (if tok @ cs \<noteq> [] \<or> q then [tok @ cs] else [])"
  by (induction cs arbitrary: tok) auto

lemma shlex_split_plain:
  assumes "s \<noteq> []" and "\<forall>ch \<in> set s. \<not> shlex_whitespace ch \<and> \<not> shlex_quote ch \<and> ch \<noteq> CHR 0x5C"
  shows "shlex_split s = Inr [s]"
proof (cases s)
  case Nil
  with assms show ?thesis by simp
next
  case (Cons c cs)
  with assms have "\<forall>ch \<in> set cs. \<not> shlex_whitespace ch \<and> \<not> shlex_quote ch \<and> ch \<noteq> CHR 0x5C"
    by simp
  from read_tokens_plain[OF this, of "[c]" False] Cons assms show ?thesis
    by (simp add: shlex_split_def)
qed

lemma lower_char_special:
  "shlex_whitespace c \<or> shlex_quote c \<or> c = CHR 0x5C \<Longrightarrow> lower_char c = c"
  by (auto simp: shlex_whitespace_def shlex_quote_def lower_char_def)

lemma builtin_keys_plain:
  "\<forall>c \<in> set builtin_commands. \<forall>k \<in> set (keys_of c).
     k \<noteq> [] \<and> (\<forall>ch \<in> set k. \<not> shlex_whitespace ch \<and> \<not> shlex_quote ch \<and> ch \<noteq> CHR 0x5C)"
  by code_simp

lemma spelling_plain:
  assumes "c \<in> set builtin_commands" "k \<in> set (keys_of c)" "lower s = k"
  shows "shlex_split s = Inr [s]"
proof -
  from assms builtin_keys_plain have k: "k \<noteq> []"
    "\<forall>ch \<in> set k. \<not> shlex_whitespace ch \<and> \<not> shlex_quote ch \<and> ch \<noteq> CHR 0x5C" by blast+
  from k(1) assms(3) have "s \<noteq> []" by (auto simp: lower_def)
  moreover have "\<forall>ch \<in> set s. \<not> shlex_whitespace ch \<and> \<not> shlex_quote ch \<and> ch \<noteq> CHR 0x5C"
  proof
    fix ch assume ch: "ch \<in> set s"
    then have "lower_char ch \<in> set k" using assms(3) by (auto simp: lower_def)
    with k(2) have p: "\<not> shlex_whitespace (lower_char ch) \<and> \<not> shlex_quote (lower_char ch)
      \<and> lower_char ch \<noteq> CHR 0x5C" by blast
    show "\<not> shlex_whitespace ch \<and> \<not> shlex_quote ch \<and> ch \<noteq> CHR 0x5C"
      using p lower_char_special[of ch] by auto
  qed
  ultimately show ?thesis by (rule shlex_split_plain)
qed

text \<open>
  \<^bold>\<open>C10\<close>. \<open>help\<close> looks its argument up as typed. For a key \<open>k\<close> of a registered command
  and a spelling \<open>s\<close> of it that is not lower-case, \<open>help s\<close> logs the warning
  \<open>Command not found.\<close> and nothing else, while the line \<open>s\<close> alone resolves to the
  command and runs its handler. \<open>help k\<close>, for a name or an alias \<open>k\<close>, logs the
  command's name and description and then its tips.
\<close>

theorem help_lookup_case_sensitive:
  assumes "commands st = initialize_commands"
    and "c \<in> set builtin_commands" and "k \<in> set (keys_of c)"
  shows "(lower s = k \<and> s \<noteq> k \<longrightarrow>
            help_command [h, s] st = logger WARNING ''Command not found.'' st
            \<and> resolve (commands st) s = Some c
            \<and> handle_command_body e s st = invoke e (handler c) [s] st)
         \<and> help_command [h, k] st
             = foldl (\<lambda>s tip. logger INFO (''  - '' @ tip) s)
                 (logger INFO (name c @ '': '' @ description c) st) (tips c)"
proof (intro conjI impI)
  from assms have kc: "map_of initialize_commands k = Some c"
    by (simp add: initialize_commands_map_of)
  then show "help_command [h, k] st
             = foldl (\<lambda>s tip. logger INFO (''  - '' @ tip) s)
                 (logger INFO (name c @ '': '' @ description c) st) (tips c)"
    by (simp add: help_command_def assms(1))
  assume s: "lower s = k \<and> s \<noteq> k"
  have "map_of initialize_commands s = None"
  proof (cases "map_of initialize_commands s")
    case None then show ?thesis .
  next
    case (Some c')
    then have "c' \<in> set builtin_commands" "s \<in> set (keys_of c')"
      by (simp_all add: initialize_commands_map_of)
    with builtin_keys_lower have "lower s = s" by blast
    with s show ?thesis by simp
  qed
  then show "help_command [h, s] st = logger WARNING ''Command not found.'' st"
    by (simp add: help_command_def assms(1))
  from s kc show r: "resolve (commands st) s = Some c"
    by (simp add: resolve_def assms(1))
  from s assms have "shlex_split s = Inr [s]" by (auto intro: spelling_plain)
  with r show "handle_command_body e s st = invoke e (handler c) [s] st"
    by (simp add: handle_command_body_def resolve_def Let_def)
qed

theorem help_lookup_case_sensitive_witness:
  "commands (ZerePyCLI_init [] (Inl [])) = initialize_commands
   \<and> Command ''help'' ''Show help'' [''help'', ''help load-agent''] H_help [''h'', ''?'']
       \<in> set builtin_commands
   \<and> ''h'' \<in> set (keys_of (Command ''help'' ''Show help'' [''help'', ''help load-agent'']
         H_help [''h'', ''?'']))
   \<and> lower ''H'' = ''h'' \<and> ''H'' \<noteq> ''h''
   \<and> console (help_command [''help'', ''H''] (ZerePyCLI_init [] (Inl [])))
       = [Log WARNING ''Command not found.'']
   \<and> resolve (commands (ZerePyCLI_init [] (Inl []))) ''H''
       = Some (Command ''help'' ''Show help'' [''help'', ''help load-agent''] H_help [''h'', ''?''])
   \<and> console (help_command [''help'', ''h''] (ZerePyCLI_init [] (Inl [])))
       = [Log INFO ''help: Show help'', Log INFO ''  - help'', Log INFO ''  - help load-agent'']"
proof -
  let ?st = "ZerePyCLI_init [] (Inl [])"
  let ?c = "Command ''help'' ''Show help'' [''help'', ''help load-agent''] H_help [''h'', ''?'']"
  have h1: "commands ?st = initialize_commands" by (simp add: ZerePyCLI_init_def)
  have h2: "?c \<in> set builtin_commands" by (simp add: builtin_commands_def)
  have h3: "''h'' \<in> set (keys_of ?c)" by (simp add: keys_of_def)
  have h4: "lower ''H'' = ''h'' \<and> ''H'' \<noteq> ''h''" by code_simp
  note t = help_lookup_case_sensitive[OF h1 h2 h3, of "''H''" "''help''"]
  from t h4 have a: "help_command [''help'', ''H''] ?st = logger WARNING ''Command not found.'' ?st"
    and b: "resolve (commands ?st) ''H'' = Some ?c" by blast+
  from t have c: "help_command [''help'', ''h''] ?st
             = foldl (\<lambda>s tip. logger INFO (''  - '' @ tip) s)
                 (logger INFO (name ?c @ '': '' @ description ?c) ?st) (tips ?c)" by blast
  have "console (help_command [''help'', ''H''] ?st) = [Log WARNING ''Command not found.'']"
    unfolding a by (simp add: ZerePyCLI_init_def)
  moreover have "console (help_command [''help'', ''h''] ?st)
       = [Log INFO ''help: Show help'', Log INFO ''  - help'', Log INFO ''  - help load-agent'']"
    unfolding c by (simp add: ZerePyCLI_init_def)
  ultimately show ?thesis using h1 h2 h3 h4 b by blast
qed

section \<open>The session\<close>

text \<open>
  \<^bold>\<open>C3\<close>. The six methods that need an agent are \<open>agent_action\<close>, \<open>agent_loop\<close>,
  \<open>list_actions\<close>, \<open>configure_connection\<close>, \<open>list_connections\<close> and \<open>chat_session\<close>.
  Run with no agent loaded, each returns after one log record at level INFO and
  changes nothing else: no other output (so no call into the agent or its connection
  manager, which print), no input consumed, agent, registry and file as before. The
  record reads \<open>No agent loaded.\<close>, and \<open>Load an agent first.\<close> for \<open>chat_session\<close>.
\<close>

theorem no_agent_short_circuit:
  assumes "agent st = None"
    and "h \<in> {H_agent_action, H_agent_loop, H_list_actions, H_configure_connection,
               H_list_connections, H_chat_session}"
  shows "invoke e h input_list st
           = (Returned, st\<lparr>console := console st
                @ [Log INFO (if h = H_chat_session then ''Load an agent first.''
                             else ''No agent loaded.'')]\<rparr>)"
  using assms
  by (auto simp: agent_action_def agent_loop_def list_actions_def cm_list_actions_def configure_connection_def cm_configure_connection_def
      list_connections_def cm_list_connections_def chat_session_def setup_llm_provider_def logger_def emit_def)

theorem no_agent_short_circuit_witness:
  "agent (ZerePyCLI_init [Line ''hello''] (Inl [])) = None
   \<and> invoke quiet_env
        H_agent_action [''run'', ''conn'', ''act''] (ZerePyCLI_init [Line ''hello''] (Inl []))
      = (Returned, (ZerePyCLI_init [Line ''hello''] (Inl []))\<lparr>console := [Log INFO ''No agent loaded.'']\<rparr>)
   \<and> invoke quiet_env
        H_chat_session [''chat''] (ZerePyCLI_init [Line ''hello''] (Inl []))
      = (Returned, (ZerePyCLI_init [Line ''hello''] (Inl []))\<lparr>console := [Log INFO ''Load an agent first.'']\<rparr>)"
proof -
  let ?st = "ZerePyCLI_init [Line ''hello''] (Inl [])"
  let ?e = "quiet_env"
  have h: "agent ?st = None" by (simp add: ZerePyCLI_init_def)
  have c: "console ?st = []" by (simp add: ZerePyCLI_init_def)
  from no_agent_short_circuit[OF h, of H_agent_action ?e "[''run'', ''conn'', ''act'']"]
  have a: "invoke ?e H_agent_action [''run'', ''conn'', ''act''] ?st
      = (Returned, ?st\<lparr>console := [Log INFO ''No agent loaded.'']\<rparr>)"
    by (simp add: c)
  from no_agent_short_circuit[OF h, of H_chat_session ?e "[''chat'']"]
  have b: "invoke ?e H_chat_session [''chat''] ?st
      = (Returned, ?st\<lparr>console := [Log INFO ''Load an agent first.'']\<rparr>)"
    by (simp add: c)
  from h a b show ?thesis by blast
qed

text \<open>
  \<^bold>\<open>C9\<close>. When constructing the agent raises, \<open>_load_agent_from_file\<close> logs the error and
  changes nothing else; in particular the active agent is the one from before, or
  still none. \<open>load-agent\<close> with a name does exactly that.
\<close>

theorem load_agent_atomic_on_error:
  assumes "init_raises e nm = Some msg"
  shows "load_agent_from_file e nm st
           = st\<lparr>console := console st @ [Log ERROR (''Could not load agent: '' @ msg)]\<rparr>
         \<and> agent (load_agent_from_file e nm st) = agent st
         \<and> (length input_list \<ge> 2 \<and> input_list ! 1 = nm \<longrightarrow>
              invoke e H_load_agent input_list st
                = (Returned, st\<lparr>console := console st
                     @ [Log ERROR (''Could not load agent: '' @ msg)]\<rparr>))"
  using assms
  by (auto simp: load_agent_from_file_def load_agent_def logger_def emit_def)

theorem load_agent_atomic_on_error_witness:
  "init_raises \<lparr>html_raises = Map.empty, init_raises = [''ghost'' \<mapsto> ''no such agent''], loop_interrupted = False,
       agent_files = [], os_name = ''posix''\<rparr> ''ghost'' = Some ''no such agent''
   \<and> invoke \<lparr>html_raises = Map.empty, init_raises = [''ghost'' \<mapsto> ''no such agent''], loop_interrupted = False,
         agent_files = [], os_name = ''posix''\<rparr> H_load_agent [''load'', ''ghost'']
        \<lparr>agent = Some (ZerePyAgent ''demo'' True), commands = initialize_commands,
           console = [], stdin = [], general_json = Inl []\<rparr>
      = (Returned,
         \<lparr>agent = Some (ZerePyAgent ''demo'' True), commands = initialize_commands,
            console = [Log ERROR ''Could not load agent: no such agent''], stdin = [],
            general_json = Inl []\<rparr>)
   \<and> agent (load_agent_from_file \<lparr>html_raises = Map.empty, init_raises = [''ghost'' \<mapsto> ''no such agent''],
         loop_interrupted = False, agent_files = [], os_name = ''posix''\<rparr> ''ghost''
         (ZerePyCLI_init [] (Inl []))) = None"
proof -
  let ?e = "\<lparr>html_raises = Map.empty, init_raises = [''ghost'' \<mapsto> ''no such agent''], loop_interrupted = False,
       agent_files = [], os_name = ''posix''\<rparr>"
  let ?st = "\<lparr>agent = Some (ZerePyAgent ''demo'' True), commands = initialize_commands,
           console = [], stdin = [], general_json = Inl []\<rparr>"
  have h: "init_raises ?e ''ghost'' = Some ''no such agent''" by simp
  note t1 = load_agent_atomic_on_error[OF h, of ?st "[''load'', ''ghost'']"]
  note t2 = load_agent_atomic_on_error[OF h, of "ZerePyCLI_init [] (Inl [])"]
  from t1 have a: "invoke ?e H_load_agent [''load'', ''ghost''] ?st
      = (Returned, ?st\<lparr>console := console ?st
                     @ [Log ERROR (''Could not load agent: '' @ ''no such agent'')]\<rparr>)"
    by simp
  from t2 have b: "agent (load_agent_from_file ?e ''ghost'' (ZerePyCLI_init [] (Inl [])))
      = agent (ZerePyCLI_init [] (Inl []))" by blast
  from h a b show ?thesis by (simp add: ZerePyCLI_init_def)
qed






section \<open>Dispatch and the main loop\<close>

lemma chat_loop_outcome:
  "fst (chat_loop a evs st) \<in> {Returned, Blocked, Raised (Exception [])}"
  by (induction a evs st rule: chat_loop.induct)
     (auto simp: Let_def split: input_event.splits)

lemma chat_loop_stdin_set: "set (stdin (snd (chat_loop a evs st))) \<subseteq> set evs"
  by (induction a evs st rule: chat_loop.induct)
     (auto simp: Let_def split: input_event.splits)

lemma invoke_raises:
  assumes "fst (invoke e h il st) = Raised x"
  shows "(h = H_exit \<and> x = SystemExit 0) \<or> (h = H_chat_session \<and> x = Exception [])"
proof (cases h)
  case H_agent_loop
  with assms show ?thesis
    by (auto simp: agent_loop_def loop_def split: option.splits if_splits)
next
  case H_chat_session
  with assms chat_loop_outcome show ?thesis
    by (auto simp: chat_session_def setup_llm_provider_def Let_def split: option.splits)
       (metis exn.distinct fst_conv insertE outcome.distinct outcome.inject singletonD)+
next
  case H_exit
  with assms show ?thesis by (auto simp: exit_def)
qed (use assms in auto)

lemma invoke_stdin_set: "set (stdin (snd (invoke e h il st))) \<subseteq> set (stdin st)"
proof (cases h)
  case H_help
  then show ?thesis
    by (simp add: help_command_def help_listing_frame foldl_logger split: option.splits)
next
  case H_clear_screen
  then show ?thesis by (simp add: clear_screen_def print_welcome_message_def)
next
  case H_agent_action
  then show ?thesis by (simp add: agent_action_def split: option.splits)
next
  case H_agent_loop
  then show ?thesis by (simp add: agent_loop_def loop_def split: option.splits)
next
  case H_list_agents
  then show ?thesis by (simp add: list_agents_eq)
next
  case H_load_agent
  then show ?thesis by (simp add: load_agent_def load_agent_from_file_frame)
next
  case H_create_agent
  then show ?thesis by (simp add: create_agent_def)
next
  case H_set_default_agent
  then show ?thesis by (simp add: set_default_agent_def split: sum.splits)
next
  case H_chat_session
  then show ?thesis
    using chat_loop_stdin_set
    by (auto simp add: chat_session_def setup_llm_provider_def Let_def split: option.splits dest!: subsetD[OF chat_loop_stdin_set])
next
  case H_list_actions
  then show ?thesis by (simp add: list_actions_def cm_list_actions_def split: option.splits)
next
  case H_configure_connection
  then show ?thesis by (simp add: configure_connection_def cm_configure_connection_def split: option.splits)
next
  case H_list_connections
  then show ?thesis by (simp add: list_connections_def cm_list_connections_def split: option.splits)
next
  case H_exit
  then show ?thesis by (simp add: exit_def)
qed

lemma invoke_commands: "commands (snd (invoke e h il st)) = commands st"
proof (cases h)
  case H_help
  then show ?thesis
    by (simp add: help_command_def help_listing_frame foldl_logger split: option.splits)
next
  case H_clear_screen
  then show ?thesis by (simp add: clear_screen_def print_welcome_message_def)
next
  case H_agent_action
  then show ?thesis by (simp add: agent_action_def split: option.splits)
next
  case H_agent_loop
  then show ?thesis by (simp add: agent_loop_def loop_def split: option.splits)
next
  case H_list_agents
  then show ?thesis by (simp add: list_agents_eq)
next
  case H_load_agent
  then show ?thesis by (simp add: load_agent_def load_agent_from_file_frame)
next
  case H_create_agent
  then show ?thesis by (simp add: create_agent_def)
next
  case H_set_default_agent
  then show ?thesis by (simp add: set_default_agent_def split: sum.splits)
next
  case H_chat_session
  then show ?thesis
    by (simp add: chat_session_def setup_llm_provider_def Let_def chat_loop_frame split: option.splits)
next
  case H_list_actions
  then show ?thesis by (simp add: list_actions_def cm_list_actions_def split: option.splits)
next
  case H_configure_connection
  then show ?thesis by (simp add: configure_connection_def cm_configure_connection_def split: option.splits)
next
  case H_list_connections
  then show ?thesis by (simp add: list_connections_def cm_list_connections_def split: option.splits)
next
  case H_exit
  then show ?thesis by (simp add: exit_def)
qed

text \<open>A line that runs the \<open>exit\<close> command: it splits into tokens, and the first token
  resolves to a command whose handler is \<open>exit\<close>.\<close>

definition exit_line :: "(string, command) dict \<Rightarrow> string \<Rightarrow> bool" where
  "exit_line cmds s =
     (case shlex_split s of
        Inl msg \<Rightarrow> False
      | Inr input_list \<Rightarrow>
          input_list \<noteq> [] \<and>
          (case resolve cmds (input_list ! 0) of
             Some command \<Rightarrow> handler command = H_exit
           | None \<Rightarrow> False))"

lemma handle_command_body_raises:
  assumes "fst (handle_command_body e s st) = Raised x"
  shows "(x = SystemExit 0 \<and> exit_line (commands st) s) \<or> (\<exists>msg. x = Exception msg)"
  using assms invoke_raises
  by (fastforce simp: handle_command_body_def exit_line_def resolve_def Let_def
      split: sum.splits option.splits if_splits)

lemma handle_command_caught:
  "handle_command_body e s st = (Raised (Exception msg), st') \<Longrightarrow>
   handle_command e s st = (Returned, logger ERROR (''Error: '' @ msg) st')"
  by (simp add: handle_command_def)

lemma handle_command_raises:
  assumes "fst (handle_command e s st) = Raised x"
  shows "x = SystemExit 0 \<and> exit_line (commands st) s"
proof -
  obtain r st' where b: "handle_command_body e s st = (r, st')"
    by (cases "handle_command_body e s st")
  with assms have "r = Raised x \<and> (\<forall>msg. x \<noteq> Exception msg)"
    by (auto simp: handle_command_def split: outcome.splits exn.splits)
  with handle_command_body_raises[of e s st x] b show ?thesis by auto
qed

lemma handle_command_commands: "commands (snd (handle_command e s st)) = commands st"
proof -
  have "commands (snd (handle_command_body e s st)) = commands st"
    by (simp add: handle_command_body_def Let_def invoke_commands handle_unknown_command_frame
        split: sum.splits option.splits)
  then show ?thesis
    by (cases "handle_command_body e s st")
       (auto simp: handle_command_def split: outcome.splits exn.splits)
qed

lemma handle_command_stdin_set: "set (stdin (snd (handle_command e s st))) \<subseteq> set (stdin st)"
proof -
  have "set (stdin (snd (handle_command_body e s st))) \<subseteq> set (stdin st)"
    using invoke_stdin_set
    by (simp add: handle_command_body_def Let_def handle_unknown_command_frame
        split: sum.splits option.splits)
  then show ?thesis
    by (cases "handle_command_body e s st")
       (auto simp: handle_command_def split: outcome.splits exn.splits)
qed

text \<open>The main loop, one turn at a time.\<close>

lemma repl_html:
  "get_prompt_message e st = Inl msg \<Longrightarrow> repl e st = (Raised (Exception msg), st)"
  by (subst repl.simps) simp

lemma repl_blocked:
  "get_prompt_message e st = Inr m \<Longrightarrow> stdin st = [] \<Longrightarrow>
   repl e st = (Blocked, emit (Prompt m) st)"
  by (subst repl.simps) simp

lemma repl_skip:
  "get_prompt_message e st = Inr m \<Longrightarrow> stdin st = ev # evs \<Longrightarrow>
   ev = Interrupt \<or> (\<exists>u. ev = Line u \<and> strip u = []) \<Longrightarrow>
   repl e st = repl e (emit (Prompt m) (st\<lparr>stdin := evs\<rparr>))"
  by (subst repl.simps) auto

lemma repl_eof:
  "get_prompt_message e st = Inr m \<Longrightarrow> stdin st = EOF # evs \<Longrightarrow>
   repl e st = (Raised (SystemExit 0),
                logger INFO ''Goodbye!'' (emit (Prompt m) (st\<lparr>stdin := evs\<rparr>)))"
  by (subst repl.simps) (simp add: exit_def)

lemma repl_line:
  "get_prompt_message e st = Inr m \<Longrightarrow> stdin st = Line u # evs \<Longrightarrow> strip u \<noteq> [] \<Longrightarrow>
   handle_command e (strip u) (emit (Prompt m) (st\<lparr>stdin := evs\<rparr>)) = (r, st2) \<Longrightarrow>
   repl e st = (case r of
                  Returned \<Rightarrow> repl e (print_h_bar st2)
                | Raised ex \<Rightarrow> if ex = KeyboardInterrupt then repl e st2 else (Raised ex, st2)
                | Blocked \<Rightarrow> (Blocked, st2))"
  by (subst repl.simps) (simp split: outcome.splits exn.splits)

lemma repl_raises:
  "fst (repl e st) \<noteq> Returned \<and>
   (fst (repl e st) = Raised x \<longrightarrow>
      (x = SystemExit 0 \<and>
       (EOF \<in> set (stdin st)
        \<or> (\<exists>u. Line u \<in> set (stdin st) \<and> exit_line (commands st) (strip u))))
      \<or> (\<exists>ag msg. html_raises e (prompt_text ag) = Some msg \<and> x = Exception msg))"
proof (induction "length (stdin st)" arbitrary: st rule: less_induct)
  case less
  show ?case
  proof (cases "get_prompt_message e st")
    case (Inl msg)
    then have "html_raises e (prompt_text (agent st)) = Some msg"
      by (simp add: get_prompt_message_def split: option.splits)
    then show ?thesis unfolding repl_html[OF Inl] by auto
  next
    case (Inr m)
    show ?thesis
    proof (cases "stdin st")
      case Nil
      show ?thesis unfolding repl_blocked[OF Inr Nil] by simp
    next
      case (Cons ev evs)
      define st1 where "st1 = emit (Prompt m) (st\<lparr>stdin := evs\<rparr>)"
      have st1: "stdin st1 = evs" "commands st1 = commands st" by (simp_all add: st1_def)
      have skip: ?thesis if s: "ev = Interrupt \<or> (\<exists>u. ev = Line u \<and> strip u = [])"
      proof -
        have "length (stdin st1) < length (stdin st)" using st1 Cons by simp
        from less[OF this] show ?thesis
          unfolding repl_skip[OF Inr Cons s, folded st1_def] using st1 Cons by auto
      qed
      show ?thesis
      proof (cases ev)
        case (Line u)
        show ?thesis
        proof (cases "strip u = []")
          case True
          with Line skip show ?thesis by blast
        next
          case False
          obtain r st2 where hc: "handle_command e (strip u) st1 = (r, st2)"
            by (cases "handle_command e (strip u) st1")
          have sub: "set (stdin st2) \<subseteq> set evs"
            using handle_command_stdin_set[of e "strip u" st1] hc st1 by simp
          have len: "length (stdin st2) < length (stdin st)"
            using handle_command_stdin[of e "strip u" st1] hc st1 Cons by simp
          have cmds: "commands st2 = commands st"
            using handle_command_commands[of e "strip u" st1] hc st1 by simp
          note eq = repl_line[OF Inr Cons[unfolded Line] False hc[unfolded st1_def]]
          show ?thesis
          proof (cases r)
            case Returned
            have "length (stdin (print_h_bar st2)) < length (stdin st)" using len by simp
            from less[OF this] show ?thesis
              unfolding eq Returned using sub cmds Cons by auto
          next
            case (Raised ex)
            show ?thesis
            proof (cases "ex = KeyboardInterrupt")
              case True
              from less[OF len] show ?thesis
                unfolding eq Raised using True sub cmds Cons by auto
            next
              case F: False
              from handle_command_raises[of e "strip u" st1 ex] hc Raised
              have "ex = SystemExit 0 \<and> exit_line (commands st) (strip u)" by (simp add: st1)
              then show ?thesis unfolding eq Raised using F Cons Line by auto
            qed
          next
            case Blocked
            show ?thesis unfolding eq Blocked by simp
          qed
        qed
      next
        case Interrupt
        with skip show ?thesis by blast
      next
        case EOF
        show ?thesis unfolding repl_eof[OF Inr Cons[unfolded EOF]] using Cons EOF by simp
      qed
    qed
  qed
qed

lemma eof_ends_repl:
  assumes "html_raises e (prompt_text (agent st)) = None" and "stdin st = EOF # evs"
  shows "repl e st = (Raised (SystemExit 0),
           logger INFO ''Goodbye!'' (emit (Prompt (prompt_text (agent st))) (st\<lparr>stdin := evs\<rparr>)))"
proof -
  have "get_prompt_message e st = Inr (prompt_text (agent st))"
    using assms(1) by (simp add: get_prompt_message_def)
  from repl_eof[OF this assms(2)] show ?thesis .
qed

lemma startup_frame:
  "stdin (load_default_agent e (print_welcome_message st)) = stdin st
   \<and> commands (load_default_agent e (print_welcome_message st)) = commands st"
  by (simp add: load_default_agent_def print_welcome_message_def load_agent_from_file_frame
      split: sum.splits option.splits)

lemma exit_line_exits:
  assumes "exit_line (commands st) s"
  shows "fst (handle_command e s st) = Raised (SystemExit 0)"
proof -
  from assms obtain il c where il: "shlex_split s = Inr il" "il \<noteq> []"
    and c: "resolve (commands st) (il ! 0) = Some c" "handler c = H_exit"
    by (auto simp: exit_line_def split: sum.splits option.splits)
  then have "handle_command_body e s st = exit il st"
    by (simp add: handle_command_body_def resolve_def Let_def)
  then show ?thesis by (simp add: handle_command_def exit_def)
qed

lemma main_loop_raises:
  assumes "fst (main_loop e st) = Raised x"
  shows "(x = SystemExit 0
          \<and> (EOF \<in> set (stdin st)
               \<or> (\<exists>u. Line u \<in> set (stdin st) \<and> exit_line (commands st) (strip u))))
       \<or> (\<exists>ag msg. html_raises e (prompt_text ag) = Some msg \<and> x = Exception msg)"
  using assms repl_raises[of e "load_default_agent e (print_welcome_message st)" x]
  by (simp add: main_loop_def startup_frame)

lemma main_loop_not_returned: "fst (main_loop e st) \<noteq> Returned"
  using repl_raises[of e "load_default_agent e (print_welcome_message st)"]
  by (simp add: main_loop_def)

lemma eof_ends_main_loop:
  assumes "\<forall>ag. html_raises e (prompt_text ag) = None" and "stdin st = EOF # evs"
  shows "fst (main_loop e st) = Raised (SystemExit 0)"
proof -
  define st0 where "st0 = load_default_agent e (print_welcome_message st)"
  have f: "stdin st0 = EOF # evs"
    using startup_frame[of e st] assms(2) by (simp add: st0_def)
  from assms(1) have "html_raises e (prompt_text (agent st0)) = None" by simp
  from eof_ends_repl[OF this f] show ?thesis by (simp add: main_loop_def st0_def)
qed

lemma load_then_prompt_error:
  assumes "html_raises e (prompt_text None) = None"
    and "html_raises e (prompt_text (Some (ZerePyAgent_init nm))) = Some msg"
    and "init_raises e nm = None"
    and "strip line \<noteq> []" and "shlex_split (strip line) = Inr [c, nm]"
    and "resolve initialize_commands c = Some cmd" and "handler cmd = H_load_agent"
  shows "fst (main e (Line line # rest) (Inl m)) = Raised (Exception msg)
       \<and> stdin (snd (main e (Line line # rest) (Inl m))) = rest
       \<and> agent (snd (main e (Line line # rest) (Inl m))) = Some (ZerePyAgent_init nm)"
proof -
  define st0 where "st0 = load_default_agent e (print_welcome_message
      (ZerePyCLI_init (Line line # rest) (Inl m)))"
  have st0: "agent st0 = None" "stdin st0 = Line line # rest" "commands st0 = initialize_commands"
    by (simp_all add: st0_def load_default_agent_def print_welcome_message_def ZerePyCLI_init_def)
  have p0: "get_prompt_message e st0 = Inr (prompt_text None)"
    using assms(1) by (simp add: get_prompt_message_def st0)
  define st1 where "st1 = emit (Prompt (prompt_text None)) (st0\<lparr>stdin := rest\<rparr>)"
  define st2 where "st2 = load_agent_from_file e nm st1"
  have st1: "stdin st1 = rest" "commands st1 = initialize_commands"
    by (simp_all add: st1_def st0)
  have "handle_command_body e (strip line) st1 = (Returned, st2)"
    using assms(5,6,7)
    by (simp add: handle_command_body_def st1 resolve_def Let_def load_agent_def st2_def)
  then have hc: "handle_command e (strip line) st1 = (Returned, st2)"
    by (simp add: handle_command_def)
  have st2: "agent st2 = Some (ZerePyAgent_init nm)" "stdin st2 = rest"
    using assms(3) by (simp_all add: st2_def load_agent_from_file_def Let_def st1)
  have p2: "get_prompt_message e (print_h_bar st2) = Inl msg"
    using assms(2) by (simp add: get_prompt_message_def st2)
  have "repl e st0 = repl e (print_h_bar st2)"
    using repl_line[OF p0 st0(2) assms(4) hc[unfolded st1_def]] by simp
  also have "\<dots> = (Raised (Exception msg), print_h_bar st2)" by (rule repl_html[OF p2])
  finally have "main e (Line line # rest) (Inl m) = (Raised (Exception msg), print_h_bar st2)"
    by (simp add: main_def main_loop_def st0_def)
  then show ?thesis by (simp add: st2)
qed

text \<open>
  \<^bold>\<open>C2\<close>. The process can end in a way the claim excludes. \<open>main_loop\<close> calls
  \<open>_get_prompt_message\<close> inside a \<open>try\<close> that catches \<open>KeyboardInterrupt\<close> and \<open>EOFError\<close>
  only, and \<open>HTML(...)\<close> raises on a prompt text that is not well-formed markup. So
  when the first input line is a \<open>load-agent\<close> command for an agent whose name \<open>HTML\<close>
  refuses in the prompt, the next turn of the loop ends the run with that \<open>Exception\<close>:
  not with \<open>SystemExit(0)\<close>, with no \<open>exit\<close> command and no end of input, and the rest of
  the input is never read. The rest of the claim holds. An \<open>Exception\<close> that leaves the
  \<open>try\<close> body of \<open>_handle_command\<close> is logged at \<open>ERROR\<close> and the method returns; the method
  raises only \<open>SystemExit(0)\<close>, and exactly for a line whose command is \<open>exit\<close>.
  \<open>main_loop\<close> never returns; when it ends, then either with \<open>SystemExit(0)\<close>, the input
  having held an end of input or an \<open>exit\<close> line, or with the error of \<open>HTML\<close> on a prompt
  text; and where \<open>HTML\<close> refuses no prompt text, an end of input as the first event
  ends it with \<open>SystemExit(0)\<close>.
\<close>

theorem prompt_error_ends_main_loop:
  "(html_raises e (prompt_text None) = None
      \<and> html_raises e (prompt_text (Some (ZerePyAgent_init nm))) = Some msg
      \<and> init_raises e nm = None
      \<and> strip line \<noteq> [] \<and> shlex_split (strip line) = Inr [c, nm]
      \<and> resolve initialize_commands c = Some cmd \<and> handler cmd = H_load_agent
    \<longrightarrow> fst (main e (Line line # rest) (Inl m)) = Raised (Exception msg)
        \<and> stdin (snd (main e (Line line # rest) (Inl m))) = rest
        \<and> agent (snd (main e (Line line # rest) (Inl m))) = Some (ZerePyAgent_init nm))
   \<and> (handle_command_body e s st = (Raised (Exception m'), st') \<longrightarrow>
        handle_command e s st = (Returned, logger ERROR (''Error: '' @ m') st'))
   \<and> (fst (handle_command e s st) = Raised x \<longrightarrow>
        x = SystemExit 0 \<and> exit_line (commands st) s)
   \<and> (exit_line (commands st) s \<longrightarrow> fst (handle_command e s st) = Raised (SystemExit 0))
   \<and> fst (main_loop e st) \<noteq> Returned
   \<and> (fst (main_loop e st) = Raised x \<longrightarrow>
        (x = SystemExit 0
         \<and> (EOF \<in> set (stdin st)
              \<or> (\<exists>u. Line u \<in> set (stdin st) \<and> exit_line (commands st) (strip u))))
        \<or> (\<exists>ag msg'. html_raises e (prompt_text ag) = Some msg' \<and> x = Exception msg'))
   \<and> ((\<forall>ag. html_raises e (prompt_text ag) = None) \<and> stdin st = EOF # evs \<longrightarrow>
        fst (main_loop e st) = Raised (SystemExit 0))"
proof (intro conjI impI)
  assume a: "html_raises e (prompt_text None) = None
      \<and> html_raises e (prompt_text (Some (ZerePyAgent_init nm))) = Some msg
      \<and> init_raises e nm = None
      \<and> strip line \<noteq> [] \<and> shlex_split (strip line) = Inr [c, nm]
      \<and> resolve initialize_commands c = Some cmd \<and> handler cmd = H_load_agent"
  then have t: "fst (main e (Line line # rest) (Inl m)) = Raised (Exception msg)
       \<and> stdin (snd (main e (Line line # rest) (Inl m))) = rest
       \<and> agent (snd (main e (Line line # rest) (Inl m))) = Some (ZerePyAgent_init nm)"
    using load_then_prompt_error[of e nm msg line c cmd rest m] by blast
  from t show "fst (main e (Line line # rest) (Inl m)) = Raised (Exception msg)" by simp
  from t show "stdin (snd (main e (Line line # rest) (Inl m))) = rest" by simp
  from t show "agent (snd (main e (Line line # rest) (Inl m))) = Some (ZerePyAgent_init nm)"
    by simp
next
  assume "handle_command_body e s st = (Raised (Exception m'), st')"
  then show "handle_command e s st = (Returned, logger ERROR (''Error: '' @ m') st')"
    by (rule handle_command_caught)
next
  assume r: "fst (handle_command e s st) = Raised x"
  from handle_command_raises[OF r] show "x = SystemExit 0" by simp
  from handle_command_raises[OF r] show "exit_line (commands st) s" by simp
next
  assume "exit_line (commands st) s"
  then show "fst (handle_command e s st) = Raised (SystemExit 0)" by (rule exit_line_exits)
next
  show "fst (main_loop e st) \<noteq> Returned" by (rule main_loop_not_returned)
next
  assume "fst (main_loop e st) = Raised x"
  then show "(x = SystemExit 0
         \<and> (EOF \<in> set (stdin st)
              \<or> (\<exists>u. Line u \<in> set (stdin st) \<and> exit_line (commands st) (strip u))))
        \<or> (\<exists>ag msg'. html_raises e (prompt_text ag) = Some msg' \<and> x = Exception msg')"
    by (rule main_loop_raises)
next
  assume "(\<forall>ag. html_raises e (prompt_text ag) = None) \<and> stdin st = EOF # evs"
  then show "fst (main_loop e st) = Raised (SystemExit 0)"
    using eof_ends_main_loop[of e st evs] by simp
qed

theorem prompt_error_ends_main_loop_witness:
  "html_raises \<lparr>html_raises = [''<prompt>ZerePy-CLI</prompt> (a<b) > ''
        \<mapsto> ''not well-formed (invalid token): line 1, column 43''],
      init_raises = Map.empty, loop_interrupted = False, agent_files = [], os_name = ''posix''\<rparr>
      (prompt_text None) = None
   \<and> html_raises \<lparr>html_raises = [''<prompt>ZerePy-CLI</prompt> (a<b) > ''
        \<mapsto> ''not well-formed (invalid token): line 1, column 43''],
      init_raises = Map.empty, loop_interrupted = False, agent_files = [], os_name = ''posix''\<rparr>
      (prompt_text (Some (ZerePyAgent_init ''a<b'')))
      = Some ''not well-formed (invalid token): line 1, column 43''
   \<and> shlex_split (strip ''load a<b'') = Inr [''load'', ''a<b'']
   \<and> fst (main \<lparr>html_raises = [''<prompt>ZerePy-CLI</prompt> (a<b) > ''
        \<mapsto> ''not well-formed (invalid token): line 1, column 43''],
      init_raises = Map.empty, loop_interrupted = False, agent_files = [], os_name = ''posix''\<rparr>
      [Line ''load a<b'', Line ''help''] (Inl ''no file''))
     = Raised (Exception ''not well-formed (invalid token): line 1, column 43'')
   \<and> stdin (snd (main \<lparr>html_raises = [''<prompt>ZerePy-CLI</prompt> (a<b) > ''
        \<mapsto> ''not well-formed (invalid token): line 1, column 43''],
      init_raises = Map.empty, loop_interrupted = False, agent_files = [], os_name = ''posix''\<rparr>
      [Line ''load a<b'', Line ''help''] (Inl ''no file'')))
     = [Line ''help'']
   \<and> handle_command_body quiet_env ''say 'x'' (ZerePyCLI_init [] (Inl []))
     = (Raised (Exception ''No closing quotation''), ZerePyCLI_init [] (Inl []))
   \<and> handle_command quiet_env ''say 'x'' (ZerePyCLI_init [] (Inl []))
     = (Returned, logger ERROR ''Error: No closing quotation'' (ZerePyCLI_init [] (Inl [])))
   \<and> exit_line (commands (ZerePyCLI_init [] (Inl []))) ''QUIT now''
   \<and> fst (handle_command quiet_env ''QUIT now'' (ZerePyCLI_init [] (Inl [])))
     = Raised (SystemExit 0)
   \<and> fst (main_loop quiet_env (ZerePyCLI_init
        [Line ''say 'x'', Line ''load demo'', Line ''chat'', EOF, Line ''bogus'', Interrupt,
         Line ''  '', Line ''QUIT now'', Line ''help''] (Inl ''no file'')))
     = Raised (SystemExit 0)
   \<and> (EOF \<in> set (stdin (ZerePyCLI_init
        [Line ''say 'x'', Line ''load demo'', Line ''chat'', EOF, Line ''bogus'', Interrupt,
         Line ''  '', Line ''QUIT now'', Line ''help''] (Inl ''no file'')))
       \<or> (\<exists>u. Line u \<in> set (stdin (ZerePyCLI_init
        [Line ''say 'x'', Line ''load demo'', Line ''chat'', EOF, Line ''bogus'', Interrupt,
         Line ''  '', Line ''QUIT now'', Line ''help''] (Inl ''no file'')))
            \<and> exit_line (commands (ZerePyCLI_init
        [Line ''say 'x'', Line ''load demo'', Line ''chat'', EOF, Line ''bogus'', Interrupt,
         Line ''  '', Line ''QUIT now'', Line ''help''] (Inl ''no file''))) (strip u)))
   \<and> stdin (ZerePyCLI_init [EOF, Line ''help''] (Inl ''no file'')) = [EOF, Line ''help'']
   \<and> fst (main_loop quiet_env (ZerePyCLI_init [EOF, Line ''help''] (Inl ''no file'')))
     = Raised (SystemExit 0)"
proof -
  let ?e = "\<lparr>html_raises = [''<prompt>ZerePy-CLI</prompt> (a<b) > ''
        \<mapsto> ''not well-formed (invalid token): line 1, column 43''],
      init_raises = Map.empty, loop_interrupted = False, agent_files = [], os_name = ''posix''\<rparr>"
  let ?cmd = "Command ''load-agent'' ''Load an agent'' [''load-agent agent_name'']
      H_load_agent [''load'']"
  let ?s0 = "ZerePyCLI_init [] (Inl [])"
  let ?run = "ZerePyCLI_init
        [Line ''say 'x'', Line ''load demo'', Line ''chat'', EOF, Line ''bogus'', Interrupt,
         Line ''  '', Line ''QUIT now'', Line ''help''] (Inl ''no file'')"
  let ?eof = "ZerePyCLI_init [EOF, Line ''help''] (Inl ''no file'')"
  have h1: "html_raises ?e (prompt_text None) = None" by (simp add: prompt_text_def)
  have h2: "html_raises ?e (prompt_text (Some (ZerePyAgent_init ''a<b'')))
      = Some ''not well-formed (invalid token): line 1, column 43''"
    by (simp add: prompt_text_def ZerePyAgent_init_def)
  have h3: "init_raises ?e ''a<b'' = None" by simp
  have h4: "strip ''load a<b'' \<noteq> []" by code_simp
  have h5: "shlex_split (strip ''load a<b'') = Inr [''load'', ''a<b'']" by code_simp
  have h6: "resolve initialize_commands ''load'' = Some ?cmd" by code_simp
  have h7: "handler ?cmd = H_load_agent" by simp
  have hyp: "html_raises ?e (prompt_text None) = None
      \<and> html_raises ?e (prompt_text (Some (ZerePyAgent_init ''a<b'')))
          = Some ''not well-formed (invalid token): line 1, column 43''
      \<and> init_raises ?e ''a<b'' = None
      \<and> strip ''load a<b'' \<noteq> [] \<and> shlex_split (strip ''load a<b'') = Inr [''load'', ''a<b'']
      \<and> resolve initialize_commands ''load'' = Some ?cmd \<and> handler ?cmd = H_load_agent"
    by (intro conjI) (rule h1, rule h2, rule h3, rule h4, rule h5, rule h6, rule h7)
  note t = prompt_error_ends_main_loop[where e = ?e and nm = "''a<b''" and line = "''load a<b''"
      and c = "''load''" and cmd = ?cmd and rest = "[Line ''help'']" and m = "''no file''"
      and msg = "''not well-formed (invalid token): line 1, column 43''",
      THEN conjunct1, THEN mp, OF hyp]
  have k1: "handle_command_body quiet_env ''say 'x'' ?s0
     = (Raised (Exception ''No closing quotation''), ?s0)" by code_simp
  have k2: "exit_line (commands ?s0) ''QUIT now''" by code_simp
  have k3: "fst (main_loop quiet_env ?run) = Raised (SystemExit 0)" by code_simp
  from prompt_error_ends_main_loop[where e = quiet_env and s = "''say 'x''" and st = ?s0
      and m' = "''No closing quotation''" and st' = ?s0,
      THEN conjunct2, THEN conjunct1, THEN mp, OF k1]
  have a: "handle_command quiet_env ''say 'x'' ?s0
     = (Returned, logger ERROR ''Error: No closing quotation'' ?s0)" by simp
  note b = prompt_error_ends_main_loop[where e = quiet_env and s = "''QUIT now''" and st = ?s0,
      THEN conjunct2, THEN conjunct2, THEN conjunct2, THEN conjunct1, THEN mp, OF k2]
  from prompt_error_ends_main_loop[where e = quiet_env and st = ?run and x = "SystemExit 0",
      THEN conjunct2, THEN conjunct2, THEN conjunct2, THEN conjunct2, THEN conjunct2,
      THEN conjunct1, THEN mp, OF k3]
  have c: "EOF \<in> set (stdin ?run)
       \<or> (\<exists>u. Line u \<in> set (stdin ?run) \<and> exit_line (commands ?run) (strip u))" by simp
  have q: "\<forall>ag. html_raises quiet_env (prompt_text ag) = None" by (simp add: quiet_env_def)
  have k4: "stdin ?eof = [EOF, Line ''help'']" by (simp add: ZerePyCLI_init_def)
  note d = prompt_error_ends_main_loop[where e = quiet_env and st = ?eof
      and evs = "[Line ''help'']",
      THEN conjunct2, THEN conjunct2, THEN conjunct2, THEN conjunct2, THEN conjunct2,
      THEN conjunct2, THEN mp, OF conjI, OF q k4]
  show ?thesis
    by (intro conjI) (rule h1, rule h2, rule h5, rule t[THEN conjunct1],
        rule t[THEN conjunct2, THEN conjunct1], rule k1, rule a, rule k2, rule b, rule k3,
        rule c, rule k4, rule d)
qed

section \<open>The provider setup in a run\<close>

text \<open>
  How often the line of \<open>_setup_llm_provider\<close> is printed in a whole run. Every agent
  that the program builds has \<open>is_llm_set\<close> true, no command changes that, and with
  the flag true no command prints the line.
\<close>

lemma count_list_logs [simp]: "count_list (map (\<lambda>x. Log l (f x)) xs) (Print s) = 0"
  by (induction xs) simp_all














section \<open>Suggestions\<close>

text \<open>
  The three ratios are ordered: the matching blocks pair equal elements of the two
  sequences, no element twice, so their sizes sum to at most the size of the
  sequences' common multiset, which is what \<open>quick_ratio\<close> counts. So a candidate
  passes the three tests of \<open>get_close_matches\<close> exactly when its \<open>ratio\<close> reaches the
  cutoff. \<open>slice xs lo hi\<close> is \<open>xs[lo:hi]\<close>.
\<close>

definition slice :: "'a list \<Rightarrow> nat \<Rightarrow> nat \<Rightarrow> 'a list" where
  "slice xs lo hi = take (hi - lo) (drop lo xs)"

lemma slice_split:
  assumes "lo \<le> mid" "mid \<le> hi"
  shows "slice xs lo hi = slice xs lo mid @ slice xs mid hi"
proof -
  have "hi - lo = (mid - lo) + (hi - mid)" using assms by simp
  then have "take (hi - lo) (drop lo xs)
      = take (mid - lo) (drop lo xs) @ take (hi - mid) (drop (mid - lo) (drop lo xs))"
    by (simp only: take_add)
  moreover have "drop (mid - lo) (drop lo xs) = drop mid xs" using assms by simp
  ultimately show ?thesis by (simp add: slice_def)
qed

lemma slice_all: "slice xs 0 (length xs) = xs"
  by (simp add: slice_def)

lemma slice_block_eq:
  assumes "i + k \<le> length a" "j + k \<le> length b" "\<And>t. t < k \<Longrightarrow> a ! (i + t) = b ! (j + t)"
  shows "slice a i (i + k) = slice b j (j + k)"
proof (rule nth_equalityI)
  show "length (slice a i (i + k)) = length (slice b j (j + k))"
    using assms(1,2) by (simp add: slice_def)
  fix t assume "t < length (slice a i (i + k))"
  then have t: "t < k" using assms(1) by (simp add: slice_def)
  with assms show "slice a i (i + k) ! t = slice b j (j + k) ! t"
    by (simp add: slice_def)
qed

lemma length_slice: "hi \<le> length xs \<Longrightarrow> length (slice xs lo hi) = hi - lo"
  by (simp add: slice_def)

lemma inter_bound:
  "size (A1 \<inter># B1) + size C + size (A2 \<inter># B2)
     \<le> size ((A1 + C + A2) \<inter># (B1 + C + B2))"
proof -
  have "(A1 \<inter># B1) + C + (A2 \<inter># B2) \<subseteq># A1 + C + A2"
    by (intro mset_subset_eq_mono_add) simp_all
  moreover have "(A1 \<inter># B1) + C + (A2 \<inter># B2) \<subseteq># B1 + C + B2"
    by (intro mset_subset_eq_mono_add) simp_all
  ultimately have "(A1 \<inter># B1) + C + (A2 \<inter># B2) \<subseteq># (A1 + C + A2) \<inter># (B1 + C + B2)"
    by simp
  from size_mset_mono[OF this] show ?thesis by simp
qed


lemma matching_blocks_bound:
  assumes "alo \<le> ahi" "ahi \<le> length a" "blo \<le> bhi" "bhi \<le> length b"
  shows "sum_list (map (\<lambda>(i, j, k). k) (matching_blocks a b alo ahi blo bhi))
           \<le> size (mset (slice a alo ahi) \<inter># mset (slice b blo bhi))"
  using assms
proof (induction a b alo ahi blo bhi rule: matching_blocks.induct)
  case (1 a b alo ahi blo bhi)
  obtain i j k where f: "find_longest_match a b alo ahi blo bhi = (i, j, k)"
    by (cases "find_longest_match a b alo ahi blo bhi")
  let ?sum = "\<lambda>ms. sum_list (map (\<lambda>(i, j, k). k) ms)"
  show ?case
  proof (cases "k = 0")
    case True
    with f have "matching_blocks a b alo ahi blo bhi = []"
      by (subst matching_blocks.simps) simp
    then show ?thesis by simp
  next
    case False
    then have kpos: "k > 0" by simp
    from find_longest_match_ok[of a b alo ahi blo bhi] f
    have ok: "block_ok a b alo ahi blo bhi (i, j, k)" by simp
    note d = block_okD[OF ok]
    from d(3)[OF kpos] have hi: "i + k \<le> ahi" "j + k \<le> bhi" by simp_all
    define L where "L = (if alo < i \<and> blo < j then matching_blocks a b alo i blo j else [])"
    define R where "R = (if i + k < ahi \<and> j + k < bhi
                          then matching_blocks a b (i + k) ahi (j + k) bhi else [])"
    have mb: "matching_blocks a b alo ahi blo bhi = L @ [(i, j, k)] @ R"
      using f False by (subst matching_blocks.simps) (simp add: L_def R_def)
    have lb: "?sum L \<le> size (mset (slice a alo i) \<inter># mset (slice b blo j))"
    proof (cases "alo < i \<and> blo < j")
      case True
      have "?sum (matching_blocks a b alo i blo j)
          \<le> size (mset (slice a alo i) \<inter># mset (slice b blo j))"
        using True hi "1.prems" d(1,2)
        by (intro "1.IH"(1)[OF f[symmetric] refl False True]) simp_all
      with True show ?thesis by (simp add: L_def)
    next
      case False
      then have "L = []" unfolding L_def by (simp only: if_False)
      then show ?thesis by simp
    qed
    have rb: "?sum R \<le> size (mset (slice a (i + k) ahi) \<inter># mset (slice b (j + k) bhi))"
    proof (cases "i + k < ahi \<and> j + k < bhi")
      case True
      have "?sum (matching_blocks a b (i + k) ahi (j + k) bhi)
          \<le> size (mset (slice a (i + k) ahi) \<inter># mset (slice b (j + k) bhi))"
        using True "1.prems"
        by (intro "1.IH"(2)[OF f[symmetric] refl False True]) simp_all
      with True show ?thesis by (simp add: R_def)
    next
      case False
      then have "R = []" unfolding R_def by (simp only: if_False)
      then show ?thesis by simp
    qed
    have blk: "slice a i (i + k) = slice b j (j + k)"
      using hi "1.prems" d(5) by (intro slice_block_eq) simp_all
    have sa: "slice a alo ahi = slice a alo i @ slice a i (i + k) @ slice a (i + k) ahi"
      using d(1) hi(1) slice_split[of alo i ahi a] slice_split[of i "i + k" ahi a] by simp
    have sb: "slice b blo bhi = slice b blo j @ slice b j (j + k) @ slice b (j + k) bhi"
      using d(2) hi(2) slice_split[of blo j bhi b] slice_split[of j "j + k" bhi b] by simp
    have sz: "size (mset (slice a i (i + k))) = k"
      using hi(1) "1.prems"(2) by (simp add: length_slice)
    have "?sum (matching_blocks a b alo ahi blo bhi) = ?sum L + k + ?sum R"
      by (simp add: mb)
    also have "\<dots> \<le> size (mset (slice a alo i) \<inter># mset (slice b blo j))
        + size (mset (slice a i (i + k)))
        + size (mset (slice a (i + k) ahi) \<inter># mset (slice b (j + k) bhi))"
      using lb rb sz by simp
    also have "\<dots> \<le> size ((mset (slice a alo i) + mset (slice a i (i + k)) + mset (slice a (i + k) ahi))
        \<inter># (mset (slice b blo j) + mset (slice a i (i + k)) + mset (slice b (j + k) bhi)))"
      by (rule inter_bound)
    also have "\<dots> = size (mset (slice a alo ahi) \<inter># mset (slice b blo bhi))"
      by (simp add: sa sb blk ac_simps)
    finally show ?thesis .
  qed
qed

lemma quick_matches_eq:
  assumes "\<And>c. count R c = nat (case map_of avail c of Some n \<Rightarrow> n | None \<Rightarrow> int (count_list b c))"
  shows "quick_matches b avail a = size (mset a \<inter># R)"
  using assms
proof (induction a arbitrary: avail R)
  case Nil
  then show ?case by simp
next
  case (Cons x a)
  define numb where "numb = (case map_of avail x of Some n \<Rightarrow> n | None \<Rightarrow> int (count_list b x))"
  have cx: "count R x = nat numb" using Cons.prems[of x] by (simp add: numb_def)
  show ?case
  proof (cases "numb > 0")
    case True
    then have xin: "x \<in># R" using cx by (simp add: count_greater_zero_iff[symmetric] del: count_greater_zero_iff)
    have "\<And>c. count (R - {#x#}) c
        = nat (case map_of ((x, numb - 1) # avail) c of Some n \<Rightarrow> n | None \<Rightarrow> int (count_list b c))"
      using Cons.prems cx True by (auto simp: numb_def)
    from Cons.IH[OF this] have "quick_matches b ((x, numb - 1) # avail) a = size (mset a \<inter># (R - {#x#}))" .
    moreover have "mset (x # a) \<inter># R = add_mset x (mset a \<inter># (R - {#x#}))"
      using xin by (simp add: inter_add_left2)
    ultimately show ?thesis using True by (simp add: numb_def[symmetric] Let_def)
  next
    case False
    then have xnot: "x \<notin># R" using cx by (simp add: not_in_iff)
    have "\<And>c. count R c
        = nat (case map_of ((x, numb - 1) # avail) c of Some n \<Rightarrow> n | None \<Rightarrow> int (count_list b c))"
      using Cons.prems cx False by (auto simp: numb_def)
    from Cons.IH[OF this] have "quick_matches b ((x, numb - 1) # avail) a = size (mset a \<inter># R)" .
    moreover have "mset (x # a) \<inter># R = mset a \<inter># R"
      using xnot by (simp add: inter_add_left1)
    ultimately show ?thesis using False by (simp add: numb_def[symmetric] Let_def)
  qed
qed

lemma quick_matches_inter: "quick_matches b [] a = size (mset a \<inter># mset b)"
  by (rule quick_matches_eq) (simp add: count_mset count_list_eq_length_filter)

lemma calculate_ratio_mono: "m \<le> m' \<Longrightarrow> calculate_ratio m len \<le> calculate_ratio m' len"
  by (simp add: calculate_ratio_def divide_right_mono)

lemma ratio_le_quick_ratio: "ratio a b \<le> quick_ratio a b"
proof -
  have "sum_list (map (\<lambda>(i, j, k). k) (matching_blocks a b 0 (length a) 0 (length b)))
      \<le> size (mset (slice a 0 (length a)) \<inter># mset (slice b 0 (length b)))"
    by (rule matching_blocks_bound) simp_all
  then show ?thesis
    unfolding ratio_def quick_ratio_def quick_matches_inter
    by (intro calculate_ratio_mono) (simp add: slice_all)
qed

lemma quick_ratio_le_real_quick_ratio: "quick_ratio a b \<le> real_quick_ratio a b"
proof -
  have "size (mset a \<inter># mset b) \<le> size (mset a)" "size (mset a \<inter># mset b) \<le> size (mset b)"
    by (intro size_mset_mono; simp)+
  then have "size (mset a \<inter># mset b) \<le> min (length a) (length b)" by simp
  then show ?thesis
    unfolding quick_ratio_def real_quick_ratio_def quick_matches_inter
    by (rule calculate_ratio_mono)
qed

lemma close_enough_iff:
  "(real_quick_ratio x word \<ge> cutoff \<and> quick_ratio x word \<ge> cutoff \<and> ratio x word \<ge> cutoff)
     = (ratio x word \<ge> cutoff)"
  using ratio_le_quick_ratio[of x word] quick_ratio_le_real_quick_ratio[of x word] by auto

lemma get_close_matches_eq:
  "get_close_matches word possibilities n cutoff
     = map snd (nlargest n (map (\<lambda>x. (ratio x word, x))
         (filter (\<lambda>x. ratio x word \<ge> cutoff) possibilities)))"
  by (simp add: get_close_matches_def close_enough_iff)

lemma nlargest_top:
  assumes "distinct xs"
  shows "length (nlargest n xs) = min n (length xs)
       \<and> set (nlargest n xs) \<subseteq> set xs
       \<and> sorted_wrt (\<lambda>p q. p > q) (nlargest n xs)
       \<and> (\<forall>q \<in> set xs - set (nlargest n xs). \<forall>p \<in> set (nlargest n xs). q < p)"
proof -
  define S where "S = rev (sort xs)"
  have set_S: "set S = set xs" by (simp add: S_def)
  have "sorted_wrt (<) (sort xs)" using assms by (simp add: strict_sorted_iff)
  then have srt: "sorted_wrt (\<lambda>p q. p > q) S" by (simp add: S_def sorted_wrt_rev)
  have split: "S = take n S @ drop n S" by simp
  from srt have "sorted_wrt (\<lambda>p q. p > q) (take n S @ drop n S)" by simp
  then have app: "sorted_wrt (\<lambda>p q. p > q) (take n S)"
    "\<forall>p \<in> set (take n S). \<forall>q \<in> set (drop n S). p > q"
    unfolding sorted_wrt_append by blast+
  have 1: "length (take n S) = min n (length xs)" by (simp add: S_def min.commute)
  have 2: "set (take n S) \<subseteq> set xs" using set_take_subset[of n S] set_S by simp
  have 4: "\<forall>q \<in> set xs - set (take n S). \<forall>p \<in> set (take n S). q < p"
  proof (intro ballI)
    fix q p assume q: "q \<in> set xs - set (take n S)" and p: "p \<in> set (take n S)"
    have "set S = set (take n S) \<union> set (drop n S)"
      by (metis append_take_drop_id set_append)
    with q set_S have "q \<in> set (drop n S)" by blast
    with app(2) p show "q < p" by blast
  qed
  from 1 2 app(1) 4 show ?thesis unfolding nlargest_def S_def[symmetric] by blast
qed

lemma get_close_matches_top:
  fixes word :: string and cutoff :: rat and possibilities :: "string list" and n :: nat
  defines "Q \<equiv> filter (\<lambda>x. ratio x word \<ge> cutoff) possibilities"
  defines "r \<equiv> get_close_matches word possibilities n cutoff"
  assumes d: "distinct possibilities"
  shows "length r = min n (length Q)" and "set r \<subseteq> set Q" and "distinct r"
    and "sorted_wrt (\<lambda>x y. (ratio x word, x) > (ratio y word, y)) r"
    and "\<forall>k \<in> set Q - set r. \<forall>x \<in> set r. (ratio k word, k) < (ratio x word, x)"
proof -
  define f where "f = (\<lambda>x. (ratio x word, x))"
  define T where "T = nlargest n (map f Q)"
  have r: "r = map snd T" by (simp add: r_def T_def f_def Q_def get_close_matches_eq)
  have dQ: "distinct Q" using d by (simp add: Q_def)
  have inj: "inj_on f (set Q)" by (rule inj_onI) (simp add: f_def)
  have dP: "distinct (map f Q)" using dQ inj by (simp add: distinct_map)
  note top = nlargest_top[OF dP, of n, folded T_def]
  have Tf: "p = f (snd p) \<and> snd p \<in> set Q" if "p \<in> set T" for p
  proof -
    from that top have "p \<in> set (map f Q)" by blast
    then show ?thesis by (auto simp: f_def)
  qed
  show "length r = min n (length Q)" using top by (simp add: r)
  show sub: "set r \<subseteq> set Q" using Tf by (auto simp: r)
  have "sorted_wrt (\<lambda>p q. f (snd p) > f (snd q)) T"
  proof (rule sorted_wrt_mono_rel[of T "\<lambda>p q. p > q"])
    show "sorted_wrt (\<lambda>p q. p > q) T" using top by blast
    fix p q assume "p \<in> set T" "q \<in> set T" "q < p"
    with Tf[of p] Tf[of q] show "f (snd q) < f (snd p)" by simp
  qed
  then show srt: "sorted_wrt (\<lambda>x y. (ratio x word, x) > (ratio y word, y)) r"
    by (simp add: r sorted_wrt_map f_def)
  have "distinct T"
    using top strict_sorted_iff[of "rev T"] by (simp add: sorted_wrt_rev)
  moreover have "inj_on snd (set T)"
  proof (rule inj_onI)
    fix p q assume "p \<in> set T" "q \<in> set T" "snd p = snd q"
    with Tf[of p] Tf[of q] show "p = q" by metis
  qed
  ultimately show "distinct r" by (simp add: r distinct_map)
  show "\<forall>k \<in> set Q - set r. \<forall>x \<in> set r. (ratio k word, k) < (ratio x word, x)"
  proof (intro ballI)
    fix k x assume k: "k \<in> set Q - set r" and x: "x \<in> set r"
    from x obtain p where p: "p \<in> set T" "x = snd p" by (auto simp: r)
    have "f k \<in> set (map f Q)" using k by simp
    moreover have "f k \<notin> set T"
    proof
      assume "f k \<in> set T"
      then have "snd (f k) \<in> set r" by (force simp: r)
      with k show False by (simp add: f_def)
    qed
    ultimately have "f k < p" using top p(1) by blast
    with Tf[OF p(1)] p(2) show "(ratio k word, k) < (ratio x word, x)" by (simp add: f_def)
  qed
qed

lemma pair_less_iff:
  "((r1 :: rat, k :: string) < (r2, x)) = (r1 < r2 \<or> (r1 = r2 \<and> k < x))"
  by (auto simp: less_prod_def)

lemma builtin_suggestions:
  "get_close_matches ''aciton'' (map fst initialize_commands) 3 (6 / 10)
     = [''action'', ''actions'', ''ls-actions'']"
  "get_close_matches ''agent'' (map fst initialize_commands) 3 (6 / 10)
     = [''agents'', ''new-agent'', ''ls-agents'']"
  "get_close_matches ''runaway'' (map fst initialize_commands) 3 (6 / 10) = [''run'']"
  "ratio ''run'' ''runaway'' = 6 / 10"
  by code_simp+

lemma initialize_commands_distinct: "distinct (map fst initialize_commands)"
  by (simp add: initialize_commands_eq builtin_commands_def keys_of_def)

text \<open>
  \<^bold>\<open>C6\<close>. For any token and any registry (a dictionary, so with distinct keys),
  \<open>_get_command_suggestions\<close> returns the best three of the keys, names and aliases
  alike, whose ratio to the token is at least 0.6, or all of them when there are fewer:
  their number is the smaller of 3 and the number of such keys; no name occurs twice;
  they stand in descending order of ratio, equal ratios in descending order of the
  names; every such key left out stands below every name returned in that order; and
  when no key reaches 0.6 the result is empty. The result is a function of token and
  registry. With the built-in registry the suggestions for \<open>aciton\<close> are \<open>action\<close>,
  \<open>actions\<close> and \<open>ls-actions\<close>, so \<open>action\<close> is among them and \<open>exit\<close> is not; those for
  \<open>agent\<close> are \<open>agents\<close>, \<open>new-agent\<close> and \<open>ls-agents\<close>; and \<open>run\<close>, whose ratio to
  \<open>runaway\<close> is exactly 0.6, is suggested for it.
\<close>

theorem suggestions_contract:
  assumes "distinct (map fst (commands st))"
  shows "length (get_command_suggestions token st)
           = min 3 (length (filter (\<lambda>k. 6 / 10 \<le> ratio k token) (map fst (commands st))))
       \<and> set (get_command_suggestions token st)
           \<subseteq> {k \<in> fst ` set (commands st). 6 / 10 \<le> ratio k token}
       \<and> distinct (get_command_suggestions token st)
       \<and> sorted_wrt (\<lambda>x y. ratio y token < ratio x token
                              \<or> (ratio y token = ratio x token \<and> y < x))
            (get_command_suggestions token st)
       \<and> (\<forall>k \<in> fst ` set (commands st).
             6 / 10 \<le> ratio k token \<and> k \<notin> set (get_command_suggestions token st) \<longrightarrow>
             (\<forall>x \<in> set (get_command_suggestions token st).
                ratio k token < ratio x token \<or> (ratio k token = ratio x token \<and> k < x)))
       \<and> ((\<forall>k \<in> fst ` set (commands st). ratio k token < 6 / 10)
             \<longrightarrow> get_command_suggestions token st = [])
       \<and> (commands st = initialize_commands \<longrightarrow>
             get_command_suggestions ''aciton'' st = [''action'', ''actions'', ''ls-actions'']
             \<and> ''action'' \<in> set (get_command_suggestions ''aciton'' st)
             \<and> ''exit'' \<notin> set (get_command_suggestions ''aciton'' st)
             \<and> get_command_suggestions ''agent'' st = [''agents'', ''new-agent'', ''ls-agents'']
             \<and> ratio ''run'' ''runaway'' = 6 / 10
             \<and> get_command_suggestions ''runaway'' st = [''run''])"
proof -
  define keys where "keys = map fst (commands st)"
  define sug where "sug = get_command_suggestions token st"
  define Q where "Q = filter (\<lambda>k. 6 / 10 \<le> ratio k token) keys"
  have g: "sug = get_close_matches token keys 3 (6 / 10)"
    by (simp add: sug_def keys_def get_command_suggestions_def)
  have d: "distinct keys" using assms by (simp add: keys_def)
  note top = get_close_matches_top[OF d, where word = token and cutoff = "6 / 10" and n = 3,
      folded g Q_def]
  have setQ: "set Q = {k \<in> fst ` set (commands st). 6 / 10 \<le> ratio k token}"
    by (auto simp: Q_def keys_def)
  have 1: "length sug = min 3 (length Q)" by (rule top(1))
  have 2: "set sug \<subseteq> {k \<in> fst ` set (commands st). 6 / 10 \<le> ratio k token}"
    using top(2) setQ by simp
  have 3: "distinct sug" by (rule top(3))
  have 4: "sorted_wrt (\<lambda>x y. ratio y token < ratio x token
                              \<or> (ratio y token = ratio x token \<and> y < x)) sug"
    by (rule sorted_wrt_mono_rel[OF _ top(4)]) (auto simp: pair_less_iff)
  have 5: "\<forall>k \<in> fst ` set (commands st).
             6 / 10 \<le> ratio k token \<and> k \<notin> set sug \<longrightarrow>
             (\<forall>x \<in> set sug.
                ratio k token < ratio x token \<or> (ratio k token = ratio x token \<and> k < x))"
  proof (intro ballI impI)
    fix k x assume "k \<in> fst ` set (commands st)" "6 / 10 \<le> ratio k token \<and> k \<notin> set sug"
      and x: "x \<in> set sug"
    then have "k \<in> set Q - set sug" using setQ by simp
    with top(5) x have "(ratio k token, k) < (ratio x token, x)" by blast
    then show "ratio k token < ratio x token \<or> (ratio k token = ratio x token \<and> k < x)"
      by (auto simp: pair_less_iff)
  qed
  have 6: "(\<forall>k \<in> fst ` set (commands st). ratio k token < 6 / 10) \<longrightarrow> sug = []"
  proof (rule impI)
    assume n: "\<forall>k \<in> fst ` set (commands st). ratio k token < 6 / 10"
    have "Q = []"
    proof (cases Q)
      case Nil
      then show ?thesis .
    next
      case (Cons k ks)
      then have "k \<in> set Q" by simp
      with setQ have "k \<in> fst ` set (commands st)" "6 / 10 \<le> ratio k token" by simp_all
      with n show ?thesis by fastforce
    qed
    with 1 show "sug = []" by simp
  qed
  have 7: "commands st = initialize_commands \<longrightarrow>
             get_command_suggestions ''aciton'' st = [''action'', ''actions'', ''ls-actions'']
             \<and> ''action'' \<in> set (get_command_suggestions ''aciton'' st)
             \<and> ''exit'' \<notin> set (get_command_suggestions ''aciton'' st)
             \<and> get_command_suggestions ''agent'' st = [''agents'', ''new-agent'', ''ls-agents'']
             \<and> ratio ''run'' ''runaway'' = 6 / 10
             \<and> get_command_suggestions ''runaway'' st = [''run'']"
  proof (rule impI)
    assume c: "commands st = initialize_commands"
    have a: "get_command_suggestions ''aciton'' st = [''action'', ''actions'', ''ls-actions'']"
      using builtin_suggestions(1) by (simp only: get_command_suggestions_def c)
    have b: "get_command_suggestions ''agent'' st = [''agents'', ''new-agent'', ''ls-agents'']"
      using builtin_suggestions(2) by (simp only: get_command_suggestions_def c)
    have e: "get_command_suggestions ''runaway'' st = [''run'']"
      using builtin_suggestions(3) by (simp only: get_command_suggestions_def c)
    from a have m: "''action'' \<in> set (get_command_suggestions ''aciton'' st)"
      and x: "''exit'' \<notin> set (get_command_suggestions ''aciton'' st)" by simp_all
    show "get_command_suggestions ''aciton'' st = [''action'', ''actions'', ''ls-actions'']
             \<and> ''action'' \<in> set (get_command_suggestions ''aciton'' st)
             \<and> ''exit'' \<notin> set (get_command_suggestions ''aciton'' st)
             \<and> get_command_suggestions ''agent'' st = [''agents'', ''new-agent'', ''ls-agents'']
             \<and> ratio ''run'' ''runaway'' = 6 / 10
             \<and> get_command_suggestions ''runaway'' st = [''run'']"
      by (intro conjI) (rule a, rule m, rule x, rule b, rule builtin_suggestions(4), rule e)
  qed
  note r = 1[unfolded sug_def Q_def keys_def] 2[unfolded sug_def] 3[unfolded sug_def]
    4[unfolded sug_def] 5[unfolded sug_def] 6[unfolded sug_def]
  show ?thesis
    by (intro conjI) (rule r(1), rule r(2), rule r(3), rule r(4), rule r(5), rule r(6), rule 7)
qed

theorem suggestions_contract_witness:
  "distinct (map fst (commands (ZerePyCLI_init [] (Inl []))))
   \<and> commands (ZerePyCLI_init [] (Inl [])) = initialize_commands
   \<and> get_command_suggestions ''aciton'' (ZerePyCLI_init [] (Inl []))
       = [''action'', ''actions'', ''ls-actions'']
   \<and> get_command_suggestions ''runaway'' (ZerePyCLI_init [] (Inl [])) = [''run'']
   \<and> ''agent-loop'' \<in> fst ` set (commands (ZerePyCLI_init [] (Inl [])))
   \<and> 6 / 10 \<le> ratio ''agent-loop'' ''agent''
   \<and> ''agent-loop'' \<notin> set (get_command_suggestions ''agent'' (ZerePyCLI_init [] (Inl [])))
   \<and> ''ls-agents'' \<in> set (get_command_suggestions ''agent'' (ZerePyCLI_init [] (Inl [])))
   \<and> ratio ''agent-loop'' ''agent'' < ratio ''ls-agents'' ''agent''
   \<and> \<not> (\<exists>k \<in> fst ` set (commands (ZerePyCLI_init [] (Inl []))). 6 / 10 \<le> ratio k ''zzz'')
   \<and> get_command_suggestions ''zzz'' (ZerePyCLI_init [] (Inl [])) = []"
proof -
  let ?st = "ZerePyCLI_init [] (Inl [])"
  have h: "commands ?st = initialize_commands" by (simp add: ZerePyCLI_init_def)
  have d: "distinct (map fst (commands ?st))" by (simp only: h initialize_commands_distinct)
  have z: "\<forall>k \<in> fst ` set initialize_commands. ratio k ''zzz'' < 6 / 10" by code_simp
  then have z': "\<forall>k \<in> fst ` set (commands ?st). ratio k ''zzz'' < 6 / 10" by (simp only: h)
  have k1: "''agent-loop'' \<in> fst ` set initialize_commands" by code_simp
  then have k1': "''agent-loop'' \<in> fst ` set (commands ?st)" by (simp only: h)
  have k2: "6 / 10 \<le> ratio ''agent-loop'' ''agent''" by code_simp
  note t = suggestions_contract[OF d]
  note c2 = conjunct2
  note built = t[of "''aciton''", THEN c2, THEN c2, THEN c2, THEN c2, THEN c2, THEN c2, THEN mp, OF h]
  have a: "get_command_suggestions ''aciton'' ?st = [''action'', ''actions'', ''ls-actions'']"
    by (rule built[THEN conjunct1])
  have g: "get_command_suggestions ''agent'' ?st = [''agents'', ''new-agent'', ''ls-agents'']"
    by (rule built[THEN c2, THEN c2, THEN c2, THEN conjunct1])
  have r: "get_command_suggestions ''runaway'' ?st = [''run'']"
    by (rule built[THEN c2, THEN c2, THEN c2, THEN c2, THEN c2])
  from g have k3: "''agent-loop'' \<notin> set (get_command_suggestions ''agent'' ?st)"
    and k4: "''ls-agents'' \<in> set (get_command_suggestions ''agent'' ?st)" by simp_all
  note best = t[of "''agent''", THEN c2, THEN c2, THEN c2, THEN c2, THEN conjunct1,
      THEN bspec, OF k1', THEN mp, OF conjI[OF k2 k3], THEN bspec, OF k4]
  have ne: "ratio ''agent-loop'' ''agent'' \<noteq> ratio ''ls-agents'' ''agent''" by code_simp
  from best ne have k5: "ratio ''agent-loop'' ''agent'' < ratio ''ls-agents'' ''agent''" by simp
  have b: "get_command_suggestions ''zzz'' ?st = []"
    by (rule t[of "''zzz''", THEN c2, THEN c2, THEN c2, THEN c2, THEN c2, THEN conjunct1,
        THEN mp, OF z'])
  from z' have nz: "\<not> (\<exists>k \<in> fst ` set (commands ?st). 6 / 10 \<le> ratio k ''zzz'')"
    by (meson not_le)
  show ?thesis
    by (intro conjI) (rule d, rule h, rule a, rule r, rule k1', rule k2, rule k3, rule k4,
        rule k5, rule nz, rule b)
qed

end
